theory Spec2Isabelle
  imports Complex_Main
begin

section \<open>Stored values\<close>

text \<open>
  JavaScript strings are modelled as \<open>string\<close>; a \<open>char\<close> stands for one code unit in
  the Latin-1 range. A JavaScript number is an IEEE 754 double: a finite double is taken
  as the rational it denotes (the two zeros are not told apart), next to \<open>NaN\<close>,
  \<open>Infinity\<close> and \<open>-Infinity\<close>. A cart quantity is a double that is a count; it is kept
  as \<open>nat\<close>, and every operation on it rounds as the double operation does.
\<close>

type_synonym key = string

datatype number = Finite rat | NaN | PosInfinity | NegInfinity

text \<open>A number as \<open>JSON.stringify\<close> writes it: a numeral, or \<open>null\<close> for the three
  non-finite values.\<close>

datatype json_number = JNum rat | JNull

fun json_of_number :: "number \<Rightarrow> json_number" where
  "json_of_number (Finite r) = JNum r"
| "json_of_number NaN = JNull"
| "json_of_number PosInfinity = JNull"
| "json_of_number NegInfinity = JNull"

text \<open>A cart entry \<open>{name, price, quantity}\<close> and the record \<open>customerData\<close> of the feedback
  form. In a JSON text the numerals of an entry may spell any number; in an entry of a
  cart that was read they are doubles.\<close>

record item =
  name :: string
  price :: json_number
  quantity :: nat

record customer =
  customer_name :: string
  email :: string
  phone :: string
  lastMessage :: string
  timestamp :: string

text \<open>
  The stores hold strings. The strings the program writes are JSON texts; the model keeps a
  JSON text as the value it denotes instead of its characters: \<open>CartJSON ps\<close> is the text of
  an object whose members are \<open>ps\<close> in the order written, \<open>CustomerJSON c\<close> the text of a
  customer record, and \<open>Str s\<close> any string that is neither.
\<close>

datatype stored_text = Str string | CartJSON "(key \<times> item) list" | CustomerJSON customer

datatype exn = QuotaExceededError | NotACart

section \<open>The browser's Storage objects\<close>

text \<open>
  \<open>window.sessionStorage\<close> and \<open>window.localStorage\<close> as the adapter consumes them. Reading
  the property of \<open>window\<close> throws when storage is blocked (\<open>accessible\<close> is
  false). \<open>setItem\<close> throws \<open>QuotaExceededError\<close> when the browser does not take the
  write; which writes it takes is the browser's policy \<open>admits\<close>, a function of the present
  contents, the key and the value. \<open>getItem\<close>, \<open>removeItem\<close> and \<open>clear\<close> do not throw.
\<close>

record host_storage =
  accessible :: bool
  admits :: "(key \<rightharpoonup> stored_text) \<Rightarrow> key \<Rightarrow> stored_text \<Rightarrow> bool"
  items :: "key \<rightharpoonup> stored_text"

definition host_setItem :: "host_storage \<Rightarrow> key \<Rightarrow> stored_text \<Rightarrow> exn + host_storage" where
  "host_setItem h k v =
     (if admits h (items h) k v then Inr (h\<lparr>items := (items h)(k \<mapsto> v)\<rparr>)
      else Inl QuotaExceededError)"

definition host_getItem :: "host_storage \<Rightarrow> key \<Rightarrow> stored_text option" where
  "host_getItem h k = items h k"

definition host_removeItem :: "host_storage \<Rightarrow> key \<Rightarrow> host_storage" where
  "host_removeItem h k = h\<lparr>items := (items h)(k := None)\<rparr>"

definition host_clear :: "host_storage \<Rightarrow> host_storage" where
  "host_clear h = h\<lparr>items := Map.empty\<rparr>"

section \<open>Storage adapter\<close>

text \<open>\<open>isStorageAvailable(type)\<close>: the result and the store as the probe leaves it. Any
  exception inside the \<open>try\<close> block gives \<open>false\<close>.\<close>

definition isStorageAvailable :: "host_storage \<Rightarrow> bool \<times> host_storage" where
  "isStorageAvailable storage =
     (if \<not> accessible storage then (False, storage)
      else (case host_setItem storage ''__storage_test__'' (Str ''1'') of
              Inl e \<Rightarrow> (False, storage)
            | Inr storage' \<Rightarrow> (True, host_removeItem storage' ''__storage_test__'')))"

text \<open>
  The state of the page: the two browser stores, the two constants \<open>useSession\<close> and
  \<open>useLocal\<close> (the store or \<open>null\<close> in the source, here whether it is the store), and the
  two objects \<open>_session\<close> and \<open>_local\<close> of \<open>fallback\<close> with their own properties.
\<close>

record world =
  sessionStorage :: host_storage
  localStorage :: host_storage
  useSession :: bool
  useLocal :: bool
  fallback_session :: "key \<rightharpoonup> stored_text"
  fallback_local :: "key \<rightharpoonup> stored_text"

definition startup :: "host_storage \<Rightarrow> host_storage \<Rightarrow> world" where
  "startup ss ls =
     (let (s_ok, ss') = isStorageAvailable ss;
          (l_ok, ls') = isStorageAvailable ls
      in \<lparr>sessionStorage = ss', localStorage = ls', useSession = s_ok, useLocal = l_ok,
          fallback_session = Map.empty, fallback_local = Map.empty\<rparr>)"

text \<open>
  The fallback object. An assignment \<open>obj[k] = v\<close> to a plain object creates or overwrites
  the own property \<open>k\<close>, except for \<open>k = "__proto__"\<close>: that name reaches the inherited
  accessor, which ignores a string, so nothing is stored. \<open>hasOwnProperty\<close> and \<open>delete\<close>
  see own properties only.
\<close>

definition sessionSet :: "world \<Rightarrow> key \<Rightarrow> stored_text \<Rightarrow> world" where
  "sessionSet w k v =
     (if k = ''__proto__'' then w
      else w\<lparr>fallback_session := (fallback_session w)(k \<mapsto> v)\<rparr>)"

definition sessionGet :: "world \<Rightarrow> key \<Rightarrow> stored_text option" where
  "sessionGet w k = fallback_session w k"

definition sessionRemove :: "world \<Rightarrow> key \<Rightarrow> world" where
  "sessionRemove w k = w\<lparr>fallback_session := (fallback_session w)(k := None)\<rparr>"

definition sessionClear :: "world \<Rightarrow> world" where
  "sessionClear w = w\<lparr>fallback_session := Map.empty\<rparr>"

definition localSet :: "world \<Rightarrow> key \<Rightarrow> stored_text \<Rightarrow> world" where
  "localSet w k v =
     (if k = ''__proto__'' then w
      else w\<lparr>fallback_local := (fallback_local w)(k \<mapsto> v)\<rparr>)"

definition localGet :: "world \<Rightarrow> key \<Rightarrow> stored_text option" where
  "localGet w k = fallback_local w k"

definition localRemove :: "world \<Rightarrow> key \<Rightarrow> world" where
  "localRemove w k = w\<lparr>fallback_local := (fallback_local w)(k := None)\<rparr>"

text \<open>\<open>window.cartStorage\<close>. Only the two \<open>set\<close> operations can throw, and only through the
  browser store.\<close>

definition setSessionItem :: "world \<Rightarrow> key \<Rightarrow> stored_text \<Rightarrow> exn + world" where
  "setSessionItem w k v =
     (if useSession w
      then (case host_setItem (sessionStorage w) k v of
              Inl e \<Rightarrow> Inl e
            | Inr h \<Rightarrow> Inr (w\<lparr>sessionStorage := h\<rparr>))
      else Inr (sessionSet w k v))"

definition getSessionItem :: "world \<Rightarrow> key \<Rightarrow> stored_text option" where
  "getSessionItem w k =
     (if useSession w then host_getItem (sessionStorage w) k else sessionGet w k)"

definition removeSessionItem :: "world \<Rightarrow> key \<Rightarrow> world" where
  "removeSessionItem w k =
     (if useSession w then w\<lparr>sessionStorage := host_removeItem (sessionStorage w) k\<rparr>
      else sessionRemove w k)"

definition clearSession :: "world \<Rightarrow> world" where
  "clearSession w =
     (if useSession w then w\<lparr>sessionStorage := host_clear (sessionStorage w)\<rparr>
      else sessionClear w)"

definition setLocalItem :: "world \<Rightarrow> key \<Rightarrow> stored_text \<Rightarrow> exn + world" where
  "setLocalItem w k v =
     (if useLocal w
      then (case host_setItem (localStorage w) k v of
              Inl e \<Rightarrow> Inl e
            | Inr h \<Rightarrow> Inr (w\<lparr>localStorage := h\<rparr>))
      else Inr (localSet w k v))"

definition getLocalItem :: "world \<Rightarrow> key \<Rightarrow> stored_text option" where
  "getLocalItem w k =
     (if useLocal w then host_getItem (localStorage w) k else localGet w k)"

definition removeLocalItem :: "world \<Rightarrow> key \<Rightarrow> world" where
  "removeLocalItem w k =
     (if useLocal w then w\<lparr>localStorage := host_removeItem (localStorage w) k\<rparr>
      else localRemove w k)"

text \<open>The two capability flags \<open>hasRealSession\<close> and \<open>hasRealLocal\<close>.\<close>

definition hasRealSession :: "world \<Rightarrow> bool" where
  "hasRealSession w = useSession w"

definition hasRealLocal :: "world \<Rightarrow> bool" where
  "hasRealLocal w = useLocal w"

subsection \<open>Sequences of adapter calls\<close>

text \<open>One call of an adapter operation, with what the caller observes: the returned value
  (\<open>None\<close> for \<open>null\<close> or no value) or the exception. A call that throws leaves the state as
  it was.\<close>

datatype adapter_op =
    SetSessionItem key stored_text | GetSessionItem key | RemoveSessionItem key | ClearSession
  | SetLocalItem key stored_text | GetLocalItem key | RemoveLocalItem key

datatype outcome = Returned "stored_text option" | Threw exn

fun call :: "world \<Rightarrow> adapter_op \<Rightarrow> world \<times> outcome" where
  "call w (SetSessionItem k v) =
     (case setSessionItem w k v of Inl e \<Rightarrow> (w, Threw e) | Inr w' \<Rightarrow> (w', Returned None))"
| "call w (GetSessionItem k) = (w, Returned (getSessionItem w k))"
| "call w (RemoveSessionItem k) = (removeSessionItem w k, Returned None)"
| "call w ClearSession = (clearSession w, Returned None)"
| "call w (SetLocalItem k v) =
     (case setLocalItem w k v of Inl e \<Rightarrow> (w, Threw e) | Inr w' \<Rightarrow> (w', Returned None))"
| "call w (GetLocalItem k) = (w, Returned (getLocalItem w k))"
| "call w (RemoveLocalItem k) = (removeLocalItem w k, Returned None)"

fun calls :: "world \<Rightarrow> adapter_op list \<Rightarrow> world \<times> outcome list" where
  "calls w [] = (w, [])"
| "calls w (c # cs) =
     (let (w', r) = call w c; (w'', rs) = calls w' cs in (w'', r # rs))"

fun is_session_op :: "adapter_op \<Rightarrow> bool" where
  "is_session_op (SetSessionItem k v) = True"
| "is_session_op (GetSessionItem k) = True"
| "is_session_op (RemoveSessionItem k) = True"
| "is_session_op ClearSession = True"
| "is_session_op c = False"

fun threw :: "outcome \<Rightarrow> bool" where
  "threw (Threw e) = True"
| "threw (Returned v) = False"

text \<open>The same calls served by the fallback object alone.\<close>

fun fallback_call :: "world \<Rightarrow> adapter_op \<Rightarrow> world \<times> outcome" where
  "fallback_call w (SetSessionItem k v) = (sessionSet w k v, Returned None)"
| "fallback_call w (GetSessionItem k) = (w, Returned (sessionGet w k))"
| "fallback_call w (RemoveSessionItem k) = (sessionRemove w k, Returned None)"
| "fallback_call w ClearSession = (sessionClear w, Returned None)"
| "fallback_call w (SetLocalItem k v) = (localSet w k v, Returned None)"
| "fallback_call w (GetLocalItem k) = (w, Returned (localGet w k))"
| "fallback_call w (RemoveLocalItem k) = (localRemove w k, Returned None)"

text \<open>Three browsers: storage blocked, storage that takes every write, and storage that
  takes a string only while key and value together stay within a quota of code units.\<close>

definition blocked_host :: host_storage where
  "blocked_host = \<lparr>accessible = False, admits = (\<lambda>m k v. False), items = Map.empty\<rparr>"

definition open_host :: host_storage where
  "open_host = \<lparr>accessible = True, admits = (\<lambda>m k v. True), items = Map.empty\<rparr>"

definition quota_host :: "nat \<Rightarrow> host_storage" where
  "quota_host q =
     \<lparr>accessible = True,
      admits = (\<lambda>m k v. case v of Str s \<Rightarrow> length k + length s \<le> q | _ \<Rightarrow> False),
      items = Map.empty\<rparr>"

definition after_calls :: "world \<Rightarrow> adapter_op list \<Rightarrow> world" where
  "after_calls w cs = fst (calls w cs)"

fun is_set_op :: "adapter_op \<Rightarrow> bool" where
  "is_set_op (SetSessionItem k v) = True"
| "is_set_op (SetLocalItem k v) = True"
| "is_set_op c = False"

section \<open>Double precision\<close>

text \<open>
  Rounding a rational to the nearest double, ties to the even significand. \<open>normalize\<close>
  scales a positive value into \<open>[2^52, 2^53)\<close>, or stops at the exponent \<open>-1074\<close> of the
  subnormal doubles; the scaled value is rounded to an integer and scaled back.
  \<open>round_finite\<close> is the rounding without the overflow, \<open>round_double\<close> gives an infinity
  from \<open>2^1024\<close> on.
\<close>

definition pow2 :: "int \<Rightarrow> rat" where
  "pow2 e = (if 0 \<le> e then 2 ^ nat e else 1 / 2 ^ nat (- e))"

definition round_half_even :: "rat \<Rightarrow> int" where
  "round_half_even y =
     (let n = \<lfloor>y\<rfloor>; d = y - of_int n
      in if d < 1 / 2 then n else if 1 / 2 < d then n + 1 else if even n then n else n + 1)"

function normalize :: "rat \<Rightarrow> int \<Rightarrow> rat \<times> int" where
  "normalize a e =
     (if 2 ^ 53 \<le> a then normalize (a / 2) (e + 1)
      else if 0 < a \<and> a < 2 ^ 52 \<and> - 1074 < e then normalize (2 * a) (e - 1)
      else (a, e))"
  by pat_completeness auto
termination
proof (relation "(\<lambda>(a, e). if 2 ^ 53 \<le> a then nat \<lfloor>a\<rfloor> else 0) <*mlex*>
                 measure (\<lambda>(a, e). nat (e + 1074))")
  show "wf ((\<lambda>(a, e). if 2 ^ 53 \<le> a then nat \<lfloor>a\<rfloor> else 0) <*mlex*>
             measure (\<lambda>(a, e). nat (e + 1074)))"
    by (simp add: wf_mlex)
next
  fix a :: rat and e :: int
  assume a: "2 ^ 53 \<le> a"
  have "a / 2 + 1 \<le> a" using a by simp
  then have "\<lfloor>a / 2 + 1\<rfloor> \<le> \<lfloor>a\<rfloor>" by (rule floor_mono)
  then have "\<lfloor>a / 2\<rfloor> < \<lfloor>a\<rfloor>" by simp
  moreover have "0 < \<lfloor>a\<rfloor>" using a by (simp add: floor_less_iff le_floor_iff)
  ultimately show "((a / 2, e + 1), (a, e)) \<in>
        (\<lambda>(a, e). if 2 ^ 53 \<le> a then nat \<lfloor>a\<rfloor> else 0) <*mlex*>
          measure (\<lambda>(a, e). nat (e + 1074))"
    using a by (auto simp: mlex_less)
next
  fix a :: rat and e :: int
  assume "\<not> 2 ^ 53 \<le> a" and "0 < a \<and> a < 2 ^ 52 \<and> - 1074 < e"
  then show "((2 * a, e - 1), (a, e)) \<in>
        (\<lambda>(a, e). if 2 ^ 53 \<le> a then nat \<lfloor>a\<rfloor> else 0) <*mlex*>
          measure (\<lambda>(a, e). nat (e + 1074))"
    by (auto simp: mlex_leq mlex_less)
qed

declare normalize.simps [simp del]

definition round_finite :: "rat \<Rightarrow> rat" where
  "round_finite x =
     (if x = 0 then 0
      else (let (a, e) = normalize \<bar>x\<bar> 0;
                v = of_int (round_half_even a) * pow2 e
            in if x < 0 then - v else v))"

definition round_double :: "rat \<Rightarrow> number" where
  "round_double x =
     (let v = round_finite x
      in if 2 ^ 1024 \<le> v then PosInfinity
         else if v \<le> - (2 ^ 1024) then NegInfinity
         else Finite v)"

text \<open>The scaled forms \<open>(a, e)\<close> at which \<open>normalize\<close> stops, and the rationals that are
  doubles when the upper end of the range is left aside.\<close>

definition nf :: "rat \<Rightarrow> int \<Rightarrow> bool" where
  "nf a e = (0 < a \<and> a < 2 ^ 53 \<and> - 1074 \<le> e \<and> (2 ^ 52 \<le> a \<or> e = - 1074))"

definition representable :: "rat \<Rightarrow> bool" where
  "representable v = (v = 0 \<or> (\<exists>m e. \<bar>v\<bar> = of_int m * pow2 e \<and> nf (of_int m) e))"

text \<open>
  \<open>parseFloat\<close> and the numerals of \<open>JSON.parse\<close>: the number spelled is rounded to a
  double. The attribute \<open>data-price\<close> is given by the number it spells, \<open>NaN\<close> when it
  spells none.
\<close>

fun parseFloat :: "number \<Rightarrow> number" where
  "parseFloat (Finite r) = round_double r"
| "parseFloat NaN = NaN"
| "parseFloat PosInfinity = PosInfinity"
| "parseFloat NegInfinity = NegInfinity"

text \<open>
  Counts: doubles that are natural numbers, and \<open>Infinity\<close>. \<open>round_count n\<close> is the double
  nearest to the natural number \<open>n\<close>, \<open>double_succ q\<close> is \<open>q + 1\<close> as \<open>quantity += 1\<close>
  computes it, and \<open>count_plus\<close> is \<open>totalItems += quantity\<close>.
\<close>

datatype count = Count nat | CountInfinity

definition round_count :: "nat \<Rightarrow> count" where
  "round_count n =
     (let v = round_finite (of_nat n)
      in if 2 ^ 1024 \<le> v then CountInfinity else Count (nat \<lfloor>v\<rfloor>))"

definition double_succ :: "nat \<Rightarrow> nat" where
  "double_succ q = nat \<lfloor>round_finite (of_nat q + 1)\<rfloor>"

fun count_plus :: "count \<Rightarrow> nat \<Rightarrow> count" where
  "count_plus (Count t) q = round_count (t + q)"
| "count_plus CountInfinity q = CountInfinity"



subsection \<open>Numbers as strings\<close>

text \<open>The decimal numeral with all digits of a natural number.\<close>

definition digit_char :: "nat \<Rightarrow> char" where
  "digit_char d = ''0123456789'' ! d"

fun show_nat :: "nat \<Rightarrow> string" where
  "show_nat n =
     (if n < 10 then [digit_char n]
      else show_nat (n div 10) @ [digit_char (n mod 10)])"

declare show_nat.simps [simp del]

text \<open>
  The string that concatenation gives for a count. Up to \<open>2^53\<close> it has all the digits.
  Above, it has the fewest digits \<open>s\<close> (\<open>k\<close> of them) for which \<open>s * 10^(d - k)\<close> still
  rounds to the count, then zeros, or an exponent when the number has more than 21
  digits. \<open>digits_candidate\<close> tries the two \<open>k\<close>-digit numbers around the count and takes
  the nearer one; the power of ten above the count, when it rounds to the count, needs a
  single digit.
\<close>

definition rounds_to :: "nat \<Rightarrow> nat \<Rightarrow> bool" where
  "rounds_to v n = (round_finite (of_nat v) = of_nat n)"

definition digits_candidate :: "nat \<Rightarrow> nat \<Rightarrow> nat \<Rightarrow> nat option" where
  "digits_candidate n d k =
     (let p = 10 ^ (d - k); lo = n div p; hi = lo + 1;
          lo_ok = rounds_to (lo * p) n;
          hi_ok = (hi < 10 ^ k \<and> rounds_to (hi * p) n)
      in if lo_ok \<and> hi_ok
         then (if n - lo * p < hi * p - n then Some lo
               else if hi * p - n < n - lo * p then Some hi
               else if even lo then Some lo else Some hi)
         else if lo_ok then Some lo
         else if hi_ok then Some hi
         else None)"

fun shortest_digits :: "nat \<Rightarrow> nat \<Rightarrow> nat list \<Rightarrow> (nat \<times> nat) option" where
  "shortest_digits n d [] = None"
| "shortest_digits n d (k # ks) =
     (case digits_candidate n d k of
        Some s \<Rightarrow> Some (k, s)
      | None \<Rightarrow> shortest_digits n d ks)"

definition nat_to_string :: "nat \<Rightarrow> string" where
  "nat_to_string n =
     (if n \<le> 2 ^ 53 then show_nat n
      else (let d = length (show_nat n) in
            if rounds_to (10 ^ d) n
            then (if d + 1 \<le> 21 then show_nat (10 ^ d) else ''1e+'' @ show_nat d)
            else (case shortest_digits n d
                         [1, 2, 3, 4, 5, 6, 7, 8, 9, 10, 11, 12, 13, 14, 15, 16, 17] of
                    None \<Rightarrow> show_nat n
                  | Some (k, s) \<Rightarrow>
                      if d \<le> 21 then show_nat s @ replicate (d - k) (CHR ''0'')
                      else (if k = 1 then show_nat s
                            else take 1 (show_nat s) @ ''.'' @ drop 1 (show_nat s))
                           @ ''e+'' @ show_nat (d - 1))))"

fun count_to_string :: "count \<Rightarrow> string" where
  "count_to_string (Count n) = nat_to_string n"
| "count_to_string CountInfinity = ''Infinity''"

text \<open>
  \<open>x.toFixed(2)\<close>. Below \<open>10^21\<close> the digits are those of the integer nearest to \<open>100 x\<close>,
  the larger one on a tie, with the point before the last two; \<open>fixed2\<close> is this rounding
  to two decimals, for any rational. From \<open>10^21\<close> on the double is a whole number and is
  written as concatenation writes it.
\<close>

definition fixed2 :: "rat \<Rightarrow> string" where
  "fixed2 x =
     (let m = show_nat (nat \<lfloor>\<bar>x\<bar> * 100 + 1 / 2\<rfloor>);
          m' = (if length m \<le> 2 then replicate (3 - length m) (CHR ''0'') @ m else m)
      in (if x < 0 then ''-'' else [])
         @ take (length m' - 2) m' @ ''.'' @ drop (length m' - 2) m')"


section \<open>Plain objects and JSON\<close>

text \<open>
  A plain object is kept as the list of its own properties in the order \<open>Object.keys\<close> and
  \<open>JSON.stringify\<close> enumerate them: the array indices (canonical decimal numerals below
  \<open>2^32 - 1\<close>) in ascending order first, the other names after them in the order of their
  creation.
\<close>

type_synonym cart = "(key \<times> item) list"

definition is_digit :: "char \<Rightarrow> bool" where
  "is_digit c = (c \<in> set ''0123456789'')"

definition digit_value :: "char \<Rightarrow> nat" where
  "digit_value c = of_char c - 48"

definition numeral_value :: "string \<Rightarrow> nat" where
  "numeral_value s = foldl (\<lambda>n c. 10 * n + digit_value c) 0 s"

definition array_index :: "string \<Rightarrow> nat option" where
  "array_index s =
     (if s \<noteq> [] \<and> list_all is_digit s \<and> (s = ''0'' \<or> hd s \<noteq> CHR ''0'')
         \<and> numeral_value s < 4294967295
      then Some (numeral_value s) else None)"

text \<open>Creating the own property \<open>k\<close>, which the object does not have yet.\<close>

fun insert_index :: "nat \<Rightarrow> key \<Rightarrow> 'v \<Rightarrow> (key \<times> 'v) list \<Rightarrow> (key \<times> 'v) list" where
  "insert_index i k v [] = [(k, v)]"
| "insert_index i k v (p # ps) =
     (case array_index (fst p) of
        Some j \<Rightarrow> if j < i then p # insert_index i k v ps else (k, v) # p # ps
      | None \<Rightarrow> (k, v) # p # ps)"

definition define_property :: "(key \<times> 'v) list \<Rightarrow> key \<Rightarrow> 'v \<Rightarrow> (key \<times> 'v) list" where
  "define_property obj k v =
     (case array_index k of Some i \<Rightarrow> insert_index i k v obj | None \<Rightarrow> obj @ [(k, v)])"

text \<open>Giving the own property \<open>k\<close> a new value; its place in the enumeration stays.\<close>

fun update_own :: "(key \<times> 'v) list \<Rightarrow> key \<Rightarrow> 'v \<Rightarrow> (key \<times> 'v) list" where
  "update_own [] k v = []"
| "update_own (p # ps) k v = (if fst p = k then (k, v) # ps else p # update_own ps k v)"

text \<open>\<open>JSON.parse\<close> on the text of an object creates the members from left to right; a name
  that occurs again overwrites the value it had.\<close>

definition put_member :: "(key \<times> 'v) list \<Rightarrow> key \<times> 'v \<Rightarrow> (key \<times> 'v) list" where
  "put_member obj m =
     (if fst m \<in> fst ` set obj then update_own obj (fst m) (snd m)
      else define_property obj (fst m) (snd m))"

definition json_parse_members :: "(key \<times> 'v) list \<Rightarrow> (key \<times> 'v) list" where
  "json_parse_members ms = foldl put_member [] ms"

text \<open>
  A property read \<open>obj[k]\<close> on a plain object that has no own property \<open>k\<close> goes on to
  \<open>Object.prototype\<close>. These are the names found there; the values are functions, and for
  \<open>__proto__\<close> the prototype object itself, so each of them is truthy.
\<close>

definition object_prototype_keys :: "key list" where
  "object_prototype_keys =
     [''constructor'', ''__defineGetter__'', ''__defineSetter__'', ''hasOwnProperty'',
      ''__lookupGetter__'', ''__lookupSetter__'', ''isPrototypeOf'', ''propertyIsEnumerable'',
      ''toString'', ''valueOf'', ''__proto__'', ''toLocaleString'']"

fun join :: "string list \<Rightarrow> string \<Rightarrow> string" where
  "join [] sep = []"
| "join [x] sep = x"
| "join (x # y # zs) sep = x @ sep @ join (y # zs) sep"

section \<open>Storage helpers\<close>

definition saveCartToSession :: "world \<Rightarrow> cart \<Rightarrow> exn + world" where
  "saveCartToSession w cartItems = setSessionItem w ''cartItems'' (CartJSON cartItems)"

text \<open>
  \<open>JSON.parse\<close> reads every numeral as the nearest double. A numeral beyond the range of
  the finite doubles reads as \<open>Infinity\<close>; the handlers never write one (a quantity stops
  growing at \<open>2^53\<close>, and a price that is not finite is written as \<open>null\<close>), and the
  model takes a stored text with such an entry as no text of a cart.
\<close>

definition read_item :: "item \<Rightarrow> item option" where
  "read_item it =
     (case round_count (quantity it) of
        CountInfinity \<Rightarrow> None
      | Count q \<Rightarrow>
          (case price it of
             JNull \<Rightarrow> Some (it\<lparr>quantity := q\<rparr>)
           | JNum r \<Rightarrow>
               (case round_double r of
                  Finite v \<Rightarrow> Some (it\<lparr>price := JNum v, quantity := q\<rparr>)
                | _ \<Rightarrow> None)))"

fun read_members :: "(key \<times> item) list \<Rightarrow> exn + cart" where
  "read_members [] = Inr []"
| "read_members (m # ms) =
     (case read_item (snd m) of
        None \<Rightarrow> Inl NotACart
      | Some it \<Rightarrow>
          (case read_members ms of
             Inl e \<Rightarrow> Inl e
           | Inr c \<Rightarrow> Inr ((fst m, it) # c)))"

text \<open>
  \<open>getCartFromSession\<close>: \<open>null\<close> and the empty string are falsy and give \<open>{}\<close>. A stored
  string that is not the text of a cart is parsed unguarded by the source (\<open>JSON.parse\<close>
  throws, or returns a value that is no cart); the model stops there with \<open>NotACart\<close>.
\<close>

definition getCartFromSession :: "world \<Rightarrow> exn + cart" where
  "getCartFromSession w =
     (case getSessionItem w ''cartItems'' of
        None \<Rightarrow> Inr []
      | Some (Str s) \<Rightarrow> if s = [] then Inr [] else Inl NotACart
      | Some (CartJSON ms) \<Rightarrow> read_members (json_parse_members ms)
      | Some (CustomerJSON c) \<Rightarrow> Inl NotACart)"

definition clearCartFromSession :: "world \<Rightarrow> world" where
  "clearCartFromSession w = removeSessionItem w ''cartItems''"

definition saveCustomerToLocal :: "world \<Rightarrow> customer \<Rightarrow> exn + world" where
  "saveCustomerToLocal w customerData =
     setLocalItem w ''customerData'' (CustomerJSON customerData)"

section \<open>Cart handlers\<close>

text \<open>
  Every handler returns the state it leaves and the messages it passes to
  \<open>showCustomAlert\<close>, or the exception that ends it. What \<open>showCustomAlert\<close> does with a
  message on the page and its timer, and the listener for \<open>storage\<close> events of other tabs,
  touch neither store and are not part of the model.

  The click handler of an add-to-cart button with the attributes \<open>data-id\<close>, \<open>data-name\<close>
  and the parsed \<open>data-price\<close>. The test \<open>if (cartItems[itemId])\<close> is true for an own entry
  and for a name inherited from \<open>Object.prototype\<close>; in the second case
  \<open>cartItems[itemId].quantity += 1\<close> writes to the inherited object and the cart keeps its
  own properties. The new entry is given with the price as \<open>saveCartToSession\<close> writes it.
  \<open>addItem\<close> is the update of the cart object between the read and the write; its
  \<open>itemPrice\<close> is the double that \<open>parseFloat\<close> returned.
\<close>

definition addItem :: "cart \<Rightarrow> key \<Rightarrow> string \<Rightarrow> number \<Rightarrow> cart" where
  "addItem cartItems itemId itemName itemPrice =
     (case map_of cartItems itemId of
        Some it \<Rightarrow> update_own cartItems itemId (it\<lparr>quantity := double_succ (quantity it)\<rparr>)
      | None \<Rightarrow>
          if itemId \<in> set object_prototype_keys then cartItems
          else define_property cartItems itemId
                 \<lparr>name = itemName, price = json_of_number itemPrice, quantity = 1\<rparr>)"

definition add_to_cart_click ::
    "world \<Rightarrow> key \<Rightarrow> string \<Rightarrow> number \<Rightarrow> exn + (world \<times> string list)" where
  "add_to_cart_click w itemId itemName data_price =
     (case getCartFromSession w of
        Inl e \<Rightarrow> Inl e
      | Inr cartItems \<Rightarrow>
          (case saveCartToSession w
                  (addItem cartItems itemId itemName (parseFloat data_price)) of
             Inl e \<Rightarrow> Inl e
           | Inr w' \<Rightarrow> Inr (w', [''Item added to cart!''])))"

text \<open>
  The amounts of the cart view are doubles. The view is written over the four operations
  it uses on them, the initial total \<open>0\<close>, \<open>item.price * item.quantity\<close>,
  \<open>totalPrice += itemTotal\<close> and \<open>toFixed(2)\<close>; \<open>binary64\<close> are these operations as the
  browser computes them.
\<close>

record 'd double_ops =
  zero_d :: 'd
  times_d :: "json_number \<Rightarrow> nat \<Rightarrow> 'd"
  plus_d :: "'d \<Rightarrow> 'd \<Rightarrow> 'd"
  toFixed2 :: "'d \<Rightarrow> string"


fun cartItemStrings ::
    "'d double_ops \<Rightarrow> cart \<Rightarrow> key list \<Rightarrow> 'd \<Rightarrow> string list \<times> 'd" where
  "cartItemStrings ops cartItems [] totalPrice = ([], totalPrice)"
| "cartItemStrings ops cartItems (itemId # itemKeys) totalPrice =
     (case map_of cartItems itemId of
        None \<Rightarrow> cartItemStrings ops cartItems itemKeys totalPrice
      | Some it \<Rightarrow>
          (let itemTotal = times_d ops (price it) (quantity it);
               (strings, totalPrice') =
                 cartItemStrings ops cartItems itemKeys (plus_d ops totalPrice itemTotal)
           in ((name it @ '' (x'' @ nat_to_string (quantity it) @ '') - $''
                  @ toFixed2 ops itemTotal) # strings, totalPrice')))"

definition view_cart_click ::
    "'d double_ops \<Rightarrow> world \<Rightarrow> exn + (world \<times> string list)" where
  "view_cart_click ops w =
     (case getCartFromSession w of
        Inl e \<Rightarrow> Inl e
      | Inr cartItems \<Rightarrow>
          (let itemKeys = map fst cartItems in
           if length itemKeys = 0 then Inr (w, [''Your cart is empty''])
           else (let (strings, totalPrice) =
                       cartItemStrings ops cartItems itemKeys (zero_d ops)
                 in Inr (w, [''Cart Contents:'' @ [CHR 0x0A, CHR 0x0A]
                               @ join strings [CHR 0x0A]
                               @ [CHR 0x0A, CHR 0x0A] @ ''Total: $''
                               @ toFixed2 ops totalPrice]))))"

definition clear_cart_click :: "world \<Rightarrow> exn + (world \<times> string list)" where
  "clear_cart_click w =
     (case getCartFromSession w of
        Inl e \<Rightarrow> Inl e
      | Inr cartItems \<Rightarrow>
          (let itemKeys = map fst cartItems in
           if length itemKeys = 0 then Inr (w, [''No items to clear''])
           else Inr (clearCartFromSession w, [''Cart has been cleared!''])))"

fun totalItems :: "cart \<Rightarrow> key list \<Rightarrow> count \<Rightarrow> count" where
  "totalItems cartItems [] n = n"
| "totalItems cartItems (itemId # itemKeys) n =
     (case map_of cartItems itemId of
        None \<Rightarrow> totalItems cartItems itemKeys n
      | Some it \<Rightarrow> totalItems cartItems itemKeys (count_plus n (quantity it)))"

definition process_order_click :: "world \<Rightarrow> exn + (world \<times> string list)" where
  "process_order_click w =
     (case getCartFromSession w of
        Inl e \<Rightarrow> Inl e
      | Inr cartItems \<Rightarrow>
          (let itemKeys = map fst cartItems in
           if length itemKeys > 0
           then Inr (clearCartFromSession w,
                     [''Order processed successfully! ''
                        @ count_to_string (totalItems cartItems itemKeys (Count 0))
                        @ '' item(s) ordered.''])
           else Inr (w, [''No items in cart''])))"

text \<open>A session of clicks. A handler that ends in an exception leaves the stores as they
  were, and the page goes on to the next click.\<close>

datatype cart_op = AddItem key string number | ClearCart | ProcessOrder

fun cart_step :: "world \<Rightarrow> cart_op \<Rightarrow> exn + (world \<times> string list)" where
  "cart_step w (AddItem itemId itemName itemPrice) = add_to_cart_click w itemId itemName itemPrice"
| "cart_step w ClearCart = clear_cart_click w"
| "cart_step w ProcessOrder = process_order_click w"

fun run_cart_ops :: "world \<Rightarrow> cart_op list \<Rightarrow> world" where
  "run_cart_ops w [] = w"
| "run_cart_ops w (c # cs) =
     (case cart_step w c of Inl e \<Rightarrow> run_cart_ops w cs | Inr r \<Rightarrow> run_cart_ops (fst r) cs)"

text \<open>Clicks on add-to-cart buttons that share one \<open>data-id\<close>, each with its own
  \<open>data-name\<close> and \<open>data-price\<close>; and the cart read back after a run.\<close>

fun add_clicks :: "world \<Rightarrow> key \<Rightarrow> (string \<times> number) list \<Rightarrow> exn + world" where
  "add_clicks w itemId [] = Inr w"
| "add_clicks w itemId (a # as) =
     (case add_to_cart_click w itemId (fst a) (snd a) of
        Inl e \<Rightarrow> Inl e
      | Inr r \<Rightarrow> add_clicks (fst r) itemId as)"

definition cart_after :: "exn + world \<Rightarrow> exn + cart" where
  "cart_after r = (case r of Inl e \<Rightarrow> Inl e | Inr w \<Rightarrow> getCartFromSession w)"

text \<open>The write of \<open>v\<close> under \<open>k\<close> is taken: the scope is on the fallback, or the browser
  store admits this write in its present state.\<close>

definition session_admits :: "world \<Rightarrow> key \<Rightarrow> stored_text \<Rightarrow> bool" where
  "session_admits w k v =
     (useSession w \<longrightarrow> admits (sessionStorage w) (items (sessionStorage w)) k v)"


section \<open>Form handlers\<close>

text \<open>\<open>String.prototype.trim\<close> on the code units of this model: tab, line feed, vertical
  tab, form feed, carriage return, space and no-break space.\<close>

definition is_space :: "char \<Rightarrow> bool" where
  "is_space c = (c \<in> set [CHR 0x09, CHR 0x0A, CHR 0x0B, CHR 0x0C, CHR 0x0D, CHR 0x20, CHR 0xA0])"

definition trim :: "string \<Rightarrow> string" where
  "trim s = rev (dropWhile is_space (rev (dropWhile is_space s)))"

text \<open>\<open>s.split(sep)\<close> for a separator of one code unit.\<close>

fun split_on :: "char \<Rightarrow> string \<Rightarrow> string list" where
  "split_on sep [] = [[]]"
| "split_on sep (c # cs) =
     (if c = sep then [] # split_on sep cs
      else (case split_on sep cs of [] \<Rightarrow> [[c]] | p # ps \<Rightarrow> (c # p) # ps))"

text \<open>
  The checks both forms make on the trimmed email value, each with its early return: the
  message raised, or \<open>None\<close> when the value passes. The two forms differ in the wording
  of the first message only.
\<close>

definition newsletter_email_alert :: "string \<Rightarrow> string option" where
  \<open>newsletter_email_alert email' =
     (if email' = [] then Some ''Please enter an email address.''
      else if CHR ''@'' \<notin> set email'
      then Some ''Please include a "@" in the email address.''
      else (let emailParts = split_on (CHR ''@'') email' in
            if length emailParts \<noteq> 2 \<or> emailParts ! 0 = [] \<or> emailParts ! 1 = []
            then Some ''Please enter a valid email address.''
            else None))\<close>

definition feedback_email_alert :: "string \<Rightarrow> string option" where
  \<open>feedback_email_alert email' =
     (if email' = [] then Some ''Please enter your email address.''
      else if CHR ''@'' \<notin> set email'
      then Some ''Please include a "@" in the email address.''
      else (let emailParts = split_on (CHR ''@'') email' in
            if length emailParts \<noteq> 2 \<or> emailParts ! 0 = [] \<or> emailParts ! 1 = []
            then Some ''Please enter a valid email address.''
            else None))\<close>

text \<open>The newsletter form: the value of \<open>newsletter-email\<close> goes in; the messages and the
  value the field has afterwards come out.\<close>

definition newsletter_submit :: "string \<Rightarrow> string list \<times> string" where
  "newsletter_submit value =
     (let email = trim value in
      case newsletter_email_alert email of
        Some m \<Rightarrow> ([m], value)
      | None \<Rightarrow> ([''You are now subscribed to our newsletter with email: '' @ email], []))"

text \<open>The feedback form: the values of its four fields, and the reading of the clock that
  \<open>new Date().toISOString()\<close> gives.\<close>

record feedback_form =
  feedback_name :: string
  feedback_email :: string
  feedback_phone :: string
  feedback_message :: string

definition feedback_submit ::
    "world \<Rightarrow> feedback_form \<Rightarrow> string \<Rightarrow> exn + (world \<times> string list \<times> feedback_form)" where
  "feedback_submit w f now =
     (let name' = trim (feedback_name f);
          email' = trim (feedback_email f);
          phone' = trim (feedback_phone f);
          message = trim (feedback_message f)
      in
      if name' = [] then Inr (w, [''Please enter your name.''], f)
      else (case feedback_email_alert email' of
              Some m \<Rightarrow> Inr (w, [m], f)
            | None \<Rightarrow>
                if message = []
                then Inr (w, [''Please enter your issue/order information.''], f)
                else (let customerData =
                            \<lparr>customer_name = name', email = email', phone = phone',
                             lastMessage = message, timestamp = now\<rparr>
                      in case saveCustomerToLocal w customerData of
                           Inl e \<Rightarrow> Inl e
                         | Inr w' \<Rightarrow>
                             Inr (w', [''Thank you for your message, '' @ name'
                                         @ ''! We will get back to you soon.''],
                                  f\<lparr>feedback_message := []\<rparr>))))"

text \<open>The cart of a state can be read and all its quantities are at least 1.\<close>

definition quantities_positive :: "world \<Rightarrow> bool" where
  "quantities_positive w =
     (case getCartFromSession w of
        Inl e \<Rightarrow> False
      | Inr c \<Rightarrow> list_all (\<lambda>p. 1 \<le> quantity (snd p)) c)"

section \<open>Sample states\<close>

text \<open>A page whose browser blocks both stores, and the same page with the cart
  \<open>{A: {price: 10, quantity: 2}, B: {price: 5, quantity: 1}}\<close> in its session scope.\<close>

definition fallback_world :: world where
  "fallback_world = startup blocked_host blocked_host"

definition cart_AB :: cart where
  "cart_AB = [(''A'', \<lparr>name = ''A'', price = JNum 10, quantity = 2\<rparr>),
              (''B'', \<lparr>name = ''B'', price = JNum 5, quantity = 1\<rparr>)]"

definition world_AB :: world where
  "world_AB = sessionSet fallback_world ''cartItems'' (CartJSON cart_AB)"

text \<open>The same page with a cart whose first quantity is \<open>2^53\<close>, the last double up to which
  adding 1 is exact; and the page after three clicks on a button with
  \<open>data-price="0.005"\<close>.\<close>

definition cart_big :: cart where
  "cart_big = [(''A'', \<lparr>name = ''A'', price = JNum 10, quantity = 9007199254740992\<rparr>),
               (''B'', \<lparr>name = ''B'', price = JNum 5, quantity = 1\<rparr>)]"

definition world_big :: world where
  "world_big = sessionSet fallback_world ''cartItems'' (CartJSON cart_big)"



section \<open>The amounts of the cart view\<close>







section \<open>Validation rules of the feedback form\<close>

text \<open>
  The shape the specification asks of an email address: exactly one \<open>@\<close>, with text before
  it and text after it.
\<close>

definition one_at_between_text :: "string \<Rightarrow> bool" where
  "one_at_between_text s =
     (count_list s (CHR ''@'') = 1 \<and>
      takeWhile (\<lambda>c. c \<noteq> CHR ''@'') s \<noteq> [] \<and>
      tl (dropWhile (\<lambda>c. c \<noteq> CHR ''@'') s) \<noteq> [])"

text \<open>The newsletter form accepts a field value when it answers with the subscription
  message and empties the field.\<close>

definition newsletter_accepts :: "string \<Rightarrow> bool" where
  "newsletter_accepts value =
     (newsletter_submit value =
        ([''You are now subscribed to our newsletter with email: '' @ trim value], []))"

text \<open>The five checks of the feedback handler by name, in the order of the source, with
  the condition under which each fails and the message it raises.\<close>

datatype rule = NameRequired | EmailRequired | EmailHasAt | EmailShape | MessageRequired

fun is_presence_check :: "rule \<Rightarrow> bool" where
  "is_presence_check NameRequired = True"
| "is_presence_check EmailRequired = True"
| "is_presence_check MessageRequired = True"
| "is_presence_check EmailHasAt = False"
| "is_presence_check EmailShape = False"

fun rule_fails :: "rule \<Rightarrow> feedback_form \<Rightarrow> bool" where
  "rule_fails NameRequired f = (trim (feedback_name f) = [])"
| "rule_fails EmailRequired f = (trim (feedback_email f) = [])"
| "rule_fails EmailHasAt f = (CHR ''@'' \<notin> set (trim (feedback_email f)))"
| "rule_fails EmailShape f =
     (let emailParts = split_on (CHR ''@'') (trim (feedback_email f))
      in length emailParts \<noteq> 2 \<or> emailParts ! 0 = [] \<or> emailParts ! 1 = [])"
| "rule_fails MessageRequired f = (trim (feedback_message f) = [])"

fun rule_message :: "rule \<Rightarrow> string" where
  \<open>rule_message NameRequired = ''Please enter your name.''\<close>
| \<open>rule_message EmailRequired = ''Please enter your email address.''\<close>
| \<open>rule_message EmailHasAt = ''Please include a "@" in the email address.''\<close>
| \<open>rule_message EmailShape = ''Please enter a valid email address.''\<close>
| \<open>rule_message MessageRequired = ''Please enter your issue/order information.''\<close>

definition feedback_rules :: "rule list" where
  "feedback_rules = [NameRequired, EmailRequired, EmailHasAt, EmailShape, MessageRequired]"

definition first_failing :: "feedback_form \<Rightarrow> rule option" where
  "first_failing f = find (\<lambda>r. rule_fails r f) feedback_rules"


definition profile_after ::
    "exn + (world \<times> string list \<times> feedback_form) \<Rightarrow> stored_text option" where
  "profile_after r =
     (case r of Inl e \<Rightarrow> None | Inr r' \<Rightarrow> getLocalItem (fst r') ''customerData'')"


text \<open>Sample forms: one with a malformed address and no message, and two complete ones
  of which only the first gives a phone number.\<close>

definition form_no_at :: feedback_form where
  "form_no_at = \<lparr>feedback_name = ''Ann'', feedback_email = ''foo'', feedback_phone = [],
                 feedback_message = []\<rparr>"



section \<open>The storage adapter never re-probes\<close>

lemmas fallback_defs = sessionSet_def sessionGet_def sessionRemove_def sessionClear_def
  localSet_def localGet_def localRemove_def

lemmas adapter_defs = setSessionItem_def getSessionItem_def removeSessionItem_def
  clearSession_def setLocalItem_def getLocalItem_def removeLocalItem_def

lemmas host_defs = host_setItem_def host_getItem_def host_removeItem_def host_clear_def

lemma call_flags:
  "useSession (fst (call w c)) = useSession w" "useLocal (fst (call w c)) = useLocal w"
  by (cases c; simp add: adapter_defs fallback_defs split: sum.splits)+

lemma after_calls_Cons: "after_calls w (c # cs) = after_calls (fst (call w c)) cs"
  by (simp add: after_calls_def split: prod.splits)

lemma after_calls_flags:
  "useSession (after_calls w cs) = useSession w \<and> useLocal (after_calls w cs) = useLocal w"
proof (induction cs arbitrary: w)
  case Nil
  show ?case by (simp add: after_calls_def)
next
  case (Cons c cs)
  from Cons[of "fst (call w c)"] show ?case by (simp add: call_flags after_calls_Cons)
qed

lemma call_session_untouched:
  "\<not> useSession w \<Longrightarrow> sessionStorage (fst (call w c)) = sessionStorage w"
  by (cases c; simp add: adapter_defs fallback_defs split: sum.splits)

lemma call_local_untouched:
  "\<not> useLocal w \<Longrightarrow> localStorage (fst (call w c)) = localStorage w"
  by (cases c; simp add: adapter_defs fallback_defs split: sum.splits)

lemma after_calls_session_untouched:
  "\<not> useSession w \<Longrightarrow> sessionStorage (after_calls w cs) = sessionStorage w"
proof (induction cs arbitrary: w)
  case Nil
  show ?case by (simp add: after_calls_def)
next
  case (Cons c cs)
  from Cons.IH[of "fst (call w c)"] Cons.prems show ?case
    by (simp add: call_flags call_session_untouched after_calls_Cons)
qed

lemma after_calls_local_untouched:
  "\<not> useLocal w \<Longrightarrow> localStorage (after_calls w cs) = localStorage w"
proof (induction cs arbitrary: w)
  case Nil
  show ?case by (simp add: after_calls_def)
next
  case (Cons c cs)
  from Cons.IH[of "fst (call w c)"] Cons.prems show ?case
    by (simp add: call_flags call_local_untouched after_calls_Cons)
qed

lemma call_session_fallback:
  "\<not> useSession w \<Longrightarrow> is_session_op c \<Longrightarrow> call w c = fallback_call w c"
  by (cases c; simp add: adapter_defs)

lemma call_local_fallback:
  "\<not> useLocal w \<Longrightarrow> \<not> is_session_op c \<Longrightarrow> call w c = fallback_call w c"
  by (cases c; simp add: adapter_defs)

lemma fallback_call_returns: "\<not> threw (snd (fallback_call w c))"
  by (cases c; simp)

lemma startup_flags:
  "useSession (startup ss ls) = fst (isStorageAvailable ss)"
  "useLocal (startup ss ls) = fst (isStorageAvailable ls)"
  by (simp_all add: startup_def split: prod.splits)

lemma call_not_set_returns: "\<not> is_set_op c \<Longrightarrow> \<not> threw (snd (call w c))"
  by (cases c; simp)

lemma set_session_throws_iff:
  "threw (snd (call w (SetSessionItem k v))) =
     (useSession w \<and> \<not> admits (sessionStorage w) (items (sessionStorage w)) k v)"
  by (simp add: adapter_defs host_defs split: sum.splits)

lemma set_local_throws_iff:
  "threw (snd (call w (SetLocalItem k v))) =
     (useLocal w \<and> \<not> admits (localStorage w) (items (localStorage w)) k v)"
  by (simp add: adapter_defs host_defs split: sum.splits)

text \<open>
  C1 (corrected form). Let \<open>w\<close> be the state after the startup probe and any sequence \<open>cs\<close> of
  adapter calls, and \<open>c\<close> the next call. The capability flags still have the value the
  probe gave them at startup. A call that is not a \<open>set\<close> does not throw. A call on a scope
  whose probe failed is exactly the call on the fallback object, does not throw, and the
  browser store of that scope is as the startup left it. A \<open>set\<close> in general throws exactly
  when its scope is on the browser store and the store does not take the write.
\<close>

theorem storage_adapter_probe_once:
  "let w = after_calls (startup ss ls) cs in
     hasRealSession w = fst (isStorageAvailable ss) \<and>
     hasRealLocal w = fst (isStorageAvailable ls) \<and>
     (\<not> is_set_op c \<longrightarrow> \<not> threw (snd (call w c))) \<and>
     (\<not> fst (isStorageAvailable ss) \<and> is_session_op c \<longrightarrow>
        call w c = fallback_call w c \<and> \<not> threw (snd (call w c)) \<and>
        sessionStorage (fst (call w c)) = sessionStorage (startup ss ls)) \<and>
     (\<not> fst (isStorageAvailable ls) \<and> \<not> is_session_op c \<longrightarrow>
        call w c = fallback_call w c \<and> \<not> threw (snd (call w c)) \<and>
        localStorage (fst (call w c)) = localStorage (startup ss ls)) \<and>
     threw (snd (call w (SetSessionItem k v))) =
        (hasRealSession w \<and> \<not> admits (sessionStorage w) (items (sessionStorage w)) k v) \<and>
     threw (snd (call w (SetLocalItem k v))) =
        (hasRealLocal w \<and> \<not> admits (localStorage w) (items (localStorage w)) k v)"
proof -
  define w where "w = after_calls (startup ss ls) cs"
  have fs: "useSession w = fst (isStorageAvailable ss)"
    and fl: "useLocal w = fst (isStorageAvailable ls)"
    using after_calls_flags[of "startup ss ls" cs] by (simp_all add: w_def startup_flags)
  have a: "\<not> is_set_op c \<longrightarrow> \<not> threw (snd (call w c))"
    by (simp add: call_not_set_returns)
  have s: "call w c = fallback_call w c \<and> \<not> threw (snd (call w c)) \<and>
        sessionStorage (fst (call w c)) = sessionStorage (startup ss ls)"
    if "\<not> fst (isStorageAvailable ss)" "is_session_op c"
  proof -
    from that fs have n: "\<not> useSession w" by simp
    have "sessionStorage w = sessionStorage (startup ss ls)"
      using that by (simp add: w_def after_calls_session_untouched startup_flags)
    moreover have "sessionStorage (fst (call w c)) = sessionStorage w"
      using n by (rule call_session_untouched)
    moreover have "call w c = fallback_call w c"
      using n that(2) by (rule call_session_fallback)
    ultimately show ?thesis
      by (simp add: fallback_call_returns)
  qed
  have l: "call w c = fallback_call w c \<and> \<not> threw (snd (call w c)) \<and>
        localStorage (fst (call w c)) = localStorage (startup ss ls)"
    if "\<not> fst (isStorageAvailable ls)" "\<not> is_session_op c"
  proof -
    from that fl have n: "\<not> useLocal w" by simp
    have "localStorage w = localStorage (startup ss ls)"
      using that by (simp add: w_def after_calls_local_untouched startup_flags)
    moreover have "localStorage (fst (call w c)) = localStorage w"
      using n by (rule call_local_untouched)
    moreover have "call w c = fallback_call w c"
      using n that(2) by (rule call_local_fallback)
    ultimately show ?thesis
      by (simp add: fallback_call_returns)
  qed
  note t = set_session_throws_iff[of w k v] set_local_throws_iff[of w k v]
  from fs fl a s l t show ?thesis
    unfolding Let_def w_def[symmetric] hasRealSession_def hasRealLocal_def by blast
qed

theorem storage_adapter_probe_once_witness:
  "\<not> fst (isStorageAvailable blocked_host) \<and> is_session_op (GetSessionItem ''k'') \<and>
   \<not> is_set_op (GetSessionItem ''k'') \<and>
   call (after_calls (startup blocked_host open_host) [SetSessionItem ''k'' (Str ''v'')])
        (GetSessionItem ''k'') =
     fallback_call (after_calls (startup blocked_host open_host) [SetSessionItem ''k'' (Str ''v'')])
        (GetSessionItem ''k'') \<and>
   snd (call (after_calls (startup blocked_host open_host) [SetSessionItem ''k'' (Str ''v'')])
        (GetSessionItem ''k'')) = Returned (Some (Str ''v''))"
  using storage_adapter_probe_once[of blocked_host open_host
      "[SetSessionItem ''k'' (Str ''v'')]" "GetSessionItem ''k''"]
  by (simp add: Let_def isStorageAvailable_def blocked_host_def open_host_def startup_def
      after_calls_def adapter_defs fallback_defs host_defs)

text \<open>
  C1 as stated fails: the probe of a store with a quota of 20 code units succeeds, so the
  session scope is on the browser store, and a later \<open>setSessionItem\<close> of a longer value
  throws \<open>QuotaExceededError\<close>.
\<close>

theorem set_item_throws_counterexample:
  "hasRealSession (startup (quota_host 20) (quota_host 20)) \<and>
   snd (call (startup (quota_host 20) (quota_host 20))
          (SetSessionItem ''cartItems'' (Str ''a value of 26 code units''))) =
     Threw QuotaExceededError"
  by (simp add: hasRealSession_def isStorageAvailable_def quota_host_def startup_def
      adapter_defs host_defs)

section \<open>Own properties of plain objects\<close>

lemma set_insert_index: "set (insert_index i k v obj) = insert (k, v) (set obj)"
  by (induction obj) (auto split: option.splits)

lemma set_define_property: "set (define_property obj k v) = insert (k, v) (set obj)"
  by (simp add: define_property_def set_insert_index split: option.splits)

lemma map_of_insert_index:
  "k \<notin> fst ` set obj \<Longrightarrow> map_of (insert_index i k v obj) = (map_of obj)(k \<mapsto> v)"
proof (induction obj)
  case Nil
  show ?case by simp
next
  case (Cons p ps)
  then have "k \<noteq> fst p" and "k \<notin> fst ` set ps" by auto
  with Cons.IH show ?case
    by (auto simp: fun_upd_twist split: option.splits)
qed

lemma map_of_snoc:
  "k \<notin> fst ` set obj \<Longrightarrow> map_of (obj @ [(k, v)]) = (map_of obj)(k \<mapsto> v)"
  by (induction obj) (auto simp: fun_upd_twist)

lemma map_of_define_property:
  "k \<notin> fst ` set obj \<Longrightarrow> map_of (define_property obj k v) = (map_of obj)(k \<mapsto> v)"
  by (simp add: define_property_def map_of_insert_index map_of_snoc del: map_of_append
      split: option.splits)

lemma keys_insert_index:
  "set (map fst (insert_index i k v obj)) = insert k (set (map fst obj))"
  using set_insert_index[of i k v obj] by (metis fst_conv image_insert set_map)

lemma distinct_insert_index:
  "k \<notin> fst ` set obj \<Longrightarrow> distinct (map fst obj) \<Longrightarrow>
     distinct (map fst (insert_index i k v obj))"
proof (induction obj)
  case Nil
  show ?case by simp
next
  case (Cons p ps)
  then have "fst p \<notin> set (map fst (insert_index i k v ps))"
    unfolding keys_insert_index by auto
  with Cons show ?case by (auto split: option.splits)
qed

lemma distinct_define_property:
  "k \<notin> fst ` set obj \<Longrightarrow> distinct (map fst obj) \<Longrightarrow>
     distinct (map fst (define_property obj k v))"
  by (auto simp: define_property_def distinct_insert_index split: option.splits)

lemma keys_update_own: "map fst (update_own obj k v) = map fst obj"
  by (induction obj) auto

lemma map_of_update_own:
  "k \<in> fst ` set obj \<Longrightarrow> map_of (update_own obj k v) = (map_of obj)(k \<mapsto> v)"
proof (induction obj)
  case Nil
  then show ?case by simp
next
  case (Cons p ps)
  show ?case
  proof (cases "fst p = k")
    case True
    then show ?thesis by (auto simp: fun_eq_iff)
  next
    case False
    with Cons.prems have "k \<in> fst ` set ps" by auto
    with Cons.IH False show ?thesis by (auto simp: fun_eq_iff)
  qed
qed

lemma set_update_own: "set (update_own obj k v) \<subseteq> insert (k, v) (set obj)"
  by (induction obj) auto

lemma distinct_put_member:
  "distinct (map fst obj) \<Longrightarrow> distinct (map fst (put_member obj m))"
  by (simp add: put_member_def keys_update_own distinct_define_property)

lemma map_of_put_member: "map_of (put_member obj m) = (map_of obj)(fst m \<mapsto> snd m)"
  by (simp add: put_member_def map_of_update_own map_of_define_property)

lemma set_put_member: "set (put_member obj m) \<subseteq> insert m (set obj)"
  using set_update_own[of obj "fst m" "snd m"]
  by (auto simp: put_member_def set_define_property)

lemma foldl_put_member:
  "distinct (map fst obj) \<Longrightarrow>
     distinct (map fst (foldl put_member obj ms)) \<and>
     set (foldl put_member obj ms) \<subseteq> set obj \<union> set ms \<and>
     map_of (foldl put_member obj ms) = map_of obj ++ map_of (rev ms)"
proof (induction ms arbitrary: obj)
  case Nil
  then show ?case by simp
next
  case (Cons m ms)
  from Cons.IH[OF distinct_put_member[OF Cons.prems, of m]] set_put_member[of obj m]
  show ?case
    by (auto simp: map_of_put_member fun_eq_iff map_add_def split: option.splits)
qed

lemma distinct_json_parse_members: "distinct (map fst (json_parse_members ms))"
  using foldl_put_member[of "[]" ms] by (simp add: json_parse_members_def)

lemma set_json_parse_members: "set (json_parse_members ms) \<subseteq> set ms"
  using foldl_put_member[of "[]" ms] by (simp add: json_parse_members_def)

lemma map_of_json_parse_members: "map_of (json_parse_members ms) = map_of (rev ms)"
  using foldl_put_member[of "[]" ms] by (simp add: json_parse_members_def)

lemma map_of_rev_distinct: "distinct (map fst ms) \<Longrightarrow> map_of (rev ms) = map_of ms"
  by (rule map_of_inject_set[THEN iffD2]) (simp_all add: distinct_rev rev_map[symmetric])

lemma json_parse_members_single: "json_parse_members [m] = [m]"
  by (simp add: json_parse_members_def put_member_def define_property_def
      split: option.splits)

section \<open>Rounding to doubles\<close>

lemma floor_rat_numeral_div: "\<lfloor>numeral a / numeral b :: rat\<rfloor> = numeral a div numeral b"
  by (metis floor_divide_of_int_eq of_int_numeral)

lemmas dbl_eval = round_double_def round_finite_def normalize.simps pow2_def
  round_half_even_def Let_def floor_rat_numeral_div

lemma pow2_powi: "pow2 e = 2 powi e"
  by (simp add: pow2_def power_int_def inverse_eq_divide power_one_over)

lemma pow2_pos: "0 < pow2 e"
  by (simp add: pow2_def)

lemma pow2_add: "pow2 (a + b) = pow2 a * pow2 b"
  by (simp add: pow2_powi power_int_add)

lemma pow2_Suc: "pow2 (e + 1) = 2 * pow2 e"
  by (simp add: pow2_powi power_int_add_1')

lemma pow2_pred: "pow2 (e - 1) = pow2 e / 2"
  using pow2_Suc[of "e - 1"] by simp

lemma pow2_mono: "a \<le> b \<Longrightarrow> pow2 a \<le> pow2 b"
  by (simp add: pow2_powi power_int_increasing)

lemma pow2_less_iff: "pow2 a < pow2 b \<longleftrightarrow> a < b"
  by (metis pow2_mono pow2_powi power_int_strict_increasing linorder_not_less
      one_less_numeral_iff semiring_norm(76))

lemma pow2_nat: "0 \<le> e \<Longrightarrow> pow2 e = of_nat (2 ^ nat e)"
  by (simp add: pow2_def)

lemma normalize_nf:
  "0 < a \<Longrightarrow> - 1074 \<le> e \<Longrightarrow> normalize a e = (a', e') \<Longrightarrow>
     a' * pow2 e' = a * pow2 e \<and> nf a' e'"
proof (induction a e rule: normalize.induct)
  case (1 a e)
  show ?case
  proof (cases "2 ^ 53 \<le> a")
    case True
    with "1.prems" have "normalize (a / 2) (e + 1) = (a', e')"
      by (simp add: normalize.simps[of a e])
    with "1.IH"(1)[OF True] "1.prems" show ?thesis
      by (simp add: pow2_Suc)
  next
    case False
    show ?thesis
    proof (cases "0 < a \<and> a < 2 ^ 52 \<and> - 1074 < e")
      case True
      with False "1.prems" have "normalize (2 * a) (e - 1) = (a', e')"
        by (simp add: normalize.simps[of a e])
      with "1.IH"(2)[OF False True] "1.prems" True show ?thesis
        by (simp add: pow2_pred)
    next
      case b: False
      from False b have "normalize a e = (a, e)"
        by (subst normalize.simps) auto
      with "1.prems" have "a' = a" "e' = e" by simp_all
      with False b "1.prems" show ?thesis
        by (auto simp: nf_def)
    qed
  qed
qed

lemma nf_not_less:
  assumes "nf a1 e1" and "nf a2 e2" and "a1 * pow2 e1 = a2 * pow2 e2"
  shows "\<not> e1 < e2"
proof
  assume l: "e1 < e2"
  have "pow2 e2 = pow2 e1 * pow2 (e2 - e1)"
    using pow2_add[of e1 "e2 - e1"] by simp
  with assms(3) have "a1 * pow2 e1 = (a2 * pow2 (e2 - e1)) * pow2 e1" by simp
  then have a1: "a1 = a2 * pow2 (e2 - e1)" using pow2_pos[of e1] by simp
  have "pow2 1 \<le> pow2 (e2 - e1)" using l by (intro pow2_mono) simp
  then have "2 \<le> pow2 (e2 - e1)" by (simp add: pow2_def)
  moreover have "0 < a2" using assms(2) by (simp add: nf_def)
  ultimately have "2 * a2 \<le> a1" unfolding a1 by (simp add: mult.commute)
  moreover have "a1 < 2 ^ 53" using assms(1) by (simp add: nf_def)
  ultimately have "a2 < 2 ^ 52" by simp
  with assms(2) have "e2 = - 1074" by (auto simp: nf_def)
  moreover have "- 1074 \<le> e1" using assms(1) by (simp add: nf_def)
  ultimately show False using l by simp
qed

lemma nf_unique:
  assumes "nf a1 e1" and "nf a2 e2" and "a1 * pow2 e1 = a2 * pow2 e2"
  shows "a1 = a2 \<and> e1 = e2"
proof -
  have "\<not> e1 < e2" using assms by (rule nf_not_less)
  moreover have "\<not> e2 < e1" using assms(2,1) assms(3)[symmetric] by (rule nf_not_less)
  ultimately have e: "e1 = e2" by simp
  with assms(3) pow2_pos[of e2] show ?thesis by simp
qed

lemma normalize_of_nf:
  assumes "0 < v" and "v = a * pow2 e" and "nf a e"
  shows "normalize v 0 = (a, e)"
proof -
  obtain a' e' where n: "normalize v 0 = (a', e')" by (cases "normalize v 0")
  from normalize_nf[OF assms(1) _ n] have "a' * pow2 e' = v" and "nf a' e'"
    by (simp_all add: pow2_def)
  with assms(2,3) nf_unique[of a' e' a e] n show ?thesis by simp
qed

lemma rhe_of_int: "round_half_even (of_int m) = m"
  by (simp add: round_half_even_def)

lemma rhe_ge: "of_int k \<le> y \<Longrightarrow> k \<le> round_half_even y"
proof -
  assume "of_int k \<le> y"
  then have "k \<le> \<lfloor>y\<rfloor>" by (simp add: le_floor_iff)
  then show ?thesis by (simp add: round_half_even_def Let_def)
qed

lemma rhe_le: "y \<le> of_int k \<Longrightarrow> round_half_even y \<le> k"
proof -
  assume y: "y \<le> of_int k"
  then have f: "\<lfloor>y\<rfloor> \<le> k" by (simp add: floor_le_iff)
  show ?thesis
  proof (cases "y = of_int \<lfloor>y\<rfloor>")
    case True
    then have "round_half_even y = \<lfloor>y\<rfloor>"
      by (metis rhe_of_int)
    with f show ?thesis by simp
  next
    case False
    then have "of_int \<lfloor>y\<rfloor> < y" by (metis of_int_floor_le order_less_le)
    with y have "of_int \<lfloor>y\<rfloor> < (of_int k :: rat)" by simp
    then have "\<lfloor>y\<rfloor> + 1 \<le> k" by simp
    then show ?thesis by (simp add: round_half_even_def Let_def)
  qed
qed

lemma rhe_near: "\<bar>of_int (round_half_even y) - y\<bar> \<le> 1 / 2"
proof -
  have "of_int \<lfloor>y\<rfloor> \<le> y" "y < of_int \<lfloor>y\<rfloor> + 1" by linarith+
  then show ?thesis by (auto simp: round_half_even_def Let_def)
qed

text \<open>The value rounding gives, for a positive argument.\<close>

lemma round_finite_pos:
  assumes "0 < x"
  obtains a e where "nf a e" and "a * pow2 e = x"
    and "round_finite x = of_int (round_half_even a) * pow2 e"
proof -
  obtain a e where n: "normalize x 0 = (a, e)" by (cases "normalize x 0")
  from normalize_nf[OF assms _ n] have "a * pow2 e = x" "nf a e" by (simp_all add: pow2_def)
  moreover from assms n have "round_finite x = of_int (round_half_even a) * pow2 e"
    by (simp add: round_finite_def)
  ultimately show ?thesis using that by blast
qed

lemma round_finite_minus: "round_finite (- x) = - round_finite x"
  by (simp add: round_finite_def Let_def split: prod.splits)

lemma round_finite_nonneg: "0 \<le> x \<Longrightarrow> 0 \<le> round_finite x"
proof (cases "x = 0")
  case True
  then show ?thesis by (simp add: round_finite_def)
next
  case False
  assume "0 \<le> x"
  with False have p: "0 < x" by simp
  from round_finite_pos[OF p] obtain a e where a: "nf a e"
    and r: "round_finite x = of_int (round_half_even a) * pow2 e" by blast
  from a have "(of_int 0 :: rat) \<le> a" by (simp add: nf_def)
  then have "0 \<le> round_half_even a" by (rule rhe_ge)
  with r pow2_pos[of e] show ?thesis by simp
qed

lemma representable_round_pos:
  assumes "0 < x"
  shows "representable (round_finite x)"
proof -
  from round_finite_pos[OF assms] obtain a e where a: "nf a e"
    and r: "round_finite x = of_int (round_half_even a) * pow2 e" by blast
  define m where "m = round_half_even a"
  from a have a0: "0 < a" and a53: "a < 2 ^ 53" and e: "- 1074 \<le> e"
    and n: "2 ^ 52 \<le> a \<or> e = - 1074" by (simp_all add: nf_def)
  have m0: "0 \<le> m" unfolding m_def using a0 by (intro rhe_ge) simp
  have m53: "m \<le> 2 ^ 53" unfolding m_def using a53 by (intro rhe_le) simp
  have v: "\<bar>round_finite x\<bar> = of_int m * pow2 e"
    using r m0 pow2_pos[of e] by (simp add: abs_mult m_def)
  show ?thesis
  proof (cases "m = 0")
    case True
    with r show ?thesis by (simp add: representable_def m_def)
  next
    case m1: False
    show ?thesis
    proof (cases "m = 2 ^ 53")
      case True
      from e have "nf (of_int (2 ^ 52)) (e + 1)" by (simp add: nf_def)
      moreover have "\<bar>round_finite x\<bar> = of_int (2 ^ 52) * pow2 (e + 1)"
        using v True by (simp add: pow2_Suc)
      ultimately show ?thesis unfolding representable_def by blast
    next
      case False
      with m53 have lt: "m < 2 ^ 53" by simp
      from m1 m0 have gt: "0 < m" by simp
      have "2 ^ 52 \<le> m \<or> e = - 1074"
      proof (cases "2 ^ 52 \<le> a")
        case True
        then have "2 ^ 52 \<le> m" unfolding m_def by (intro rhe_ge) simp
        then show ?thesis by simp
      next
        case False
        with n show ?thesis by simp
      qed
      moreover have "(0 :: rat) < of_int m" using gt by simp
      moreover have "of_int m < (2 ^ 53 :: rat)"
        using lt by (metis of_int_less_iff of_int_numeral of_int_power)
      moreover have "2 ^ 52 \<le> m \<Longrightarrow> (2 ^ 52 :: rat) \<le> of_int m"
        by (metis of_int_le_iff of_int_numeral of_int_power)
      ultimately have "nf (of_int m) e"
        unfolding nf_def using e by blast
      with v show ?thesis unfolding representable_def by blast
    qed
  qed
qed

lemma representable_minus: "representable (- v) = representable v"
  by (simp add: representable_def)

lemma representable_round: "representable (round_finite x)"
proof (cases "0 < x")
  case True
  then show ?thesis by (rule representable_round_pos)
next
  case False
  show ?thesis
  proof (cases "x = 0")
    case True
    then show ?thesis by (simp add: round_finite_def representable_def)
  next
    case n: False
    with False have "0 < - x" by simp
    then have "representable (round_finite (- x))" by (rule representable_round_pos)
    then show ?thesis by (simp add: round_finite_minus representable_minus)
  qed
qed

lemma round_representable_pos:
  assumes "0 < v" and "representable v"
  shows "round_finite v = v"
proof -
  from assms obtain m e where v: "v = of_int m * pow2 e" and n: "nf (of_int m) e"
    by (auto simp: representable_def)
  from normalize_of_nf[OF assms(1) v n] assms(1) v show ?thesis
    by (simp add: round_finite_def rhe_of_int)
qed

lemma round_representable: "representable v \<Longrightarrow> round_finite v = v"
proof -
  assume r: "representable v"
  consider "v = 0" | "0 < v" | "0 < - v" by linarith
  then show ?thesis
  proof cases
    case 1
    then show ?thesis by (simp add: round_finite_def)
  next
    case 2
    with r show ?thesis by (simp add: round_representable_pos)
  next
    case 3
    from r have "representable (- v)" by (simp add: representable_minus)
    with 3 have "round_finite (- v) = - v" by (rule round_representable_pos)
    then show ?thesis by (simp add: round_finite_minus)
  qed
qed

lemma round_finite_idem: "round_finite (round_finite x) = round_finite x"
  by (rule round_representable) (rule representable_round)

lemma round_double_idem: "round_double x = Finite v \<Longrightarrow> round_double v = Finite v"
  by (auto simp: round_double_def Let_def round_finite_idem split: if_splits)


lemma representable_small_nat:
  assumes "n \<le> 2 ^ 53"
  shows "representable (of_nat n)"
proof (cases "n = 0")
  case True
  then show ?thesis by (simp add: representable_def)
next
  case False
  then have p: "(0 :: rat) < of_nat n" by simp
  show ?thesis
  proof (cases "n = 2 ^ 53")
    case True
    have "nf (of_int (2 ^ 52)) 1" by (simp add: nf_def)
    moreover have "\<bar>of_nat n :: rat\<bar> = of_int (2 ^ 52) * pow2 1"
      using True by (simp add: pow2_def)
    ultimately show ?thesis unfolding representable_def by blast
  next
    case n: False
    with assms have lt: "n < 2 ^ 53" by simp
    obtain a e where ae: "normalize (of_nat n) 0 = (a, e)" by (cases "normalize (of_nat n) 0")
    from normalize_nf[OF p _ ae] have eq: "a * pow2 e = of_nat n" and nf: "nf a e"
      by (simp_all add: pow2_def)
    have e0: "e \<le> 0"
    proof (rule ccontr)
      assume "\<not> e \<le> 0"
      then have "1 \<le> e" by simp
      then have "pow2 1 \<le> pow2 e" by (rule pow2_mono)
      then have "2 \<le> pow2 e" by (simp add: pow2_def)
      moreover from nf have "0 < a" by (simp add: nf_def)
      ultimately have "2 * a \<le> a * pow2 e" by (simp add: mult.commute)
      with eq have "2 * a \<le> of_nat n" by simp
      moreover have "(of_nat n :: rat) < 2 ^ 53"
        using lt by (metis of_nat_less_iff of_nat_numeral of_nat_power)
      ultimately have "a < 2 ^ 52" by simp
      with nf have "e = - 1074" by (auto simp: nf_def)
      with \<open>1 \<le> e\<close> show False by simp
    qed
    have "pow2 e * pow2 (- e) = 1" using pow2_add[of e "- e"] by (simp add: pow2_def)
    with eq have "a = of_nat n * pow2 (- e)"
      by (metis mult.assoc mult.right_neutral)
    also have "\<dots> = of_int (int n * 2 ^ nat (- e))"
      using e0 by (simp add: pow2_def)
    finally have a: "a = of_int (int n * 2 ^ nat (- e))" .
    with nf eq have "nf (of_int (int n * 2 ^ nat (- e))) e"
      and "\<bar>of_nat n :: rat\<bar> = of_int (int n * 2 ^ nat (- e)) * pow2 e"
      by simp_all
    then show ?thesis unfolding representable_def by blast
  qed
qed

lemma round_small_nat: "n \<le> 2 ^ 53 \<Longrightarrow> round_finite (of_nat n) = of_nat n"
  by (rule round_representable) (rule representable_small_nat)

lemma round_ge_one:
  assumes "1 \<le> x"
  shows "1 \<le> round_finite x" and "round_finite x \<le> 2 * x"
proof -
  from assms have p: "0 < x" by simp
  from round_finite_pos[OF p] obtain a e where a: "nf a e" and eq: "a * pow2 e = x"
    and r: "round_finite x = of_int (round_half_even a) * pow2 e" by blast
  from a have a53: "a < 2 ^ 53" and a0: "0 < a" by (simp_all add: nf_def)
  have "pow2 (- 53) * 2 ^ 53 = 1" by (simp add: pow2_def)
  moreover have "a * pow2 e < 2 ^ 53 * pow2 e" using a53 pow2_pos[of e] by simp
  ultimately have "pow2 (- 53) * 2 ^ 53 < 2 ^ 53 * pow2 e" using eq assms by simp
  then have "pow2 (- 53) < pow2 e" by simp
  then have e: "- 53 < e" by (simp add: pow2_less_iff)
  with a have a52: "2 ^ 52 \<le> a" by (auto simp: nf_def)
  then have "2 ^ 52 \<le> round_half_even a" by (intro rhe_ge) simp
  then have m: "(2 ^ 52 :: rat) \<le> of_int (round_half_even a)"
    by (metis of_int_le_iff of_int_numeral of_int_power)
  from e have "pow2 (- 52) \<le> pow2 e" by (intro pow2_mono) simp
  with m have "2 ^ 52 * pow2 (- 52) \<le> of_int (round_half_even a) * pow2 e"
    by (intro mult_mono) (simp_all add: pow2_def)
  with r show "1 \<le> round_finite x" by (simp add: pow2_def)
  have "of_int (round_half_even a) \<le> a + 1 / 2" using rhe_near[of a] by linarith
  also have "\<dots> \<le> 2 * a" using a52 by simp
  finally have "of_int (round_half_even a) * pow2 e \<le> 2 * a * pow2 e"
    using pow2_pos[of e] by simp
  with r eq show "round_finite x \<le> 2 * x" by (simp add: mult.assoc)
qed

lemma round_nat_is_nat: "\<exists>k. round_finite (of_nat n) = of_nat k"
proof (cases "n \<le> 2 ^ 53")
  case True
  then show ?thesis using round_small_nat by blast
next
  case False
  then have big: "(2 ^ 53 :: rat) < of_nat n"
    by (metis linorder_not_le of_nat_less_iff of_nat_numeral of_nat_power)
  then have p: "(0 :: rat) < of_nat n" by simp
  from round_finite_pos[OF p] obtain a e where a: "nf a e" and eq: "a * pow2 e = of_nat n"
    and r: "round_finite (of_nat n) = of_int (round_half_even a) * pow2 e" by blast
  from a have a53: "a < 2 ^ 53" and a0: "0 < a" by (simp_all add: nf_def)
  have "a * pow2 e < 2 ^ 53 * pow2 e" using a53 pow2_pos[of e] by simp
  with eq big have "2 ^ 53 * pow2 0 < 2 ^ 53 * pow2 e" by (simp add: pow2_def)
  then have "pow2 0 < pow2 e" by simp
  then have e: "0 < e" by (simp add: pow2_less_iff)
  have "0 \<le> round_half_even a" using a0 by (intro rhe_ge) simp
  then obtain j where j: "round_half_even a = int j" using nonneg_int_cases by blast
  have "round_finite (of_nat n) = of_nat (j * 2 ^ nat e)"
    using r j e by (simp add: pow2_def)
  then show ?thesis by blast
qed

lemma round_succ_large:
  assumes "representable v" and "2 ^ 54 \<le> v"
  shows "round_finite (v + 1) = v"
proof -
  from assms(2) have p: "0 < v" by simp
  with assms(1) obtain m e where v: "v = of_int m * pow2 e" and n: "nf (of_int m) e"
    by (auto simp: representable_def)
  from n have m53: "of_int m < (2 ^ 53 :: rat)" and m0: "(0 :: rat) < of_int m"
    by (simp_all add: nf_def)
  have "of_int m * pow2 e < 2 ^ 53 * pow2 e" using m53 pow2_pos[of e] by simp
  with v assms(2) have "2 ^ 53 * pow2 1 < 2 ^ 53 * pow2 e" by (simp add: pow2_def)
  then have "pow2 1 < pow2 e" by simp
  then have e: "1 < e" by (simp add: pow2_less_iff)
  with n have m52: "(2 ^ 52 :: rat) \<le> of_int m" by (auto simp: nf_def)
  define d where "d = pow2 (- e)"
  have "pow2 (- e) \<le> pow2 (- 2)" using e by (intro pow2_mono) simp
  then have d4: "d \<le> 1 / 4" by (simp add: d_def pow2_def)
  have d0: "0 < d" by (simp add: d_def pow2_pos)
  have de: "d * pow2 e = 1" using pow2_add[of "- e" e] by (simp add: d_def pow2_def)
  have "m < 2 ^ 53" using m53 by (metis of_int_less_iff of_int_numeral of_int_power)
  then have "m + 1 \<le> 2 ^ 53" by simp
  then have "(of_int (m + 1) :: rat) \<le> 2 ^ 53"
    by (metis of_int_le_iff of_int_numeral of_int_power)
  then have lt: "of_int m + d < (2 ^ 53 :: rat)" using d4 by simp
  have nf': "nf (of_int m + d) e"
    using n m52 lt d0 by (auto simp: nf_def)
  have eq: "v + 1 = (of_int m + d) * pow2 e"
    using v de by (simp add: distrib_right)
  have "0 < v + 1" using p by simp
  from normalize_of_nf[OF this eq nf'] this
  have r: "round_finite (v + 1) = of_int (round_half_even (of_int m + d)) * pow2 e"
    by (simp add: round_finite_def)
  have "\<lfloor>of_int m + d\<rfloor> = m" using d0 d4 by (simp add: floor_unique)
  then have "round_half_even (of_int m + d) = m"
    using d4 by (simp add: round_half_even_def)
  with r v show ?thesis by simp
qed

lemma round_succ_finite:
  assumes "representable (of_nat q)" and "(of_nat q :: rat) < 2 ^ 1024"
  shows "round_finite (of_nat q + 1) < 2 ^ 1024"
proof (cases "(2 ^ 54 :: rat) \<le> of_nat q")
  case True
  with assms show ?thesis by (simp add: round_succ_large)
next
  case False
  then have "2 * (of_nat q + 1 :: rat) < 2 ^ 1024" by simp
  moreover have "round_finite (of_nat q + 1) \<le> 2 * (of_nat q + 1)"
    by (rule round_ge_one) simp
  ultimately show ?thesis by simp
qed

lemma round_count_exact: "n \<le> 2 ^ 53 \<Longrightarrow> round_count n = Count n"
proof -
  assume n: "n \<le> 2 ^ 53"
  then have "(of_nat n :: rat) \<le> 2 ^ 53"
    by (metis of_nat_le_iff of_nat_numeral of_nat_power)
  then have "(of_nat n :: rat) < 2 ^ 1024" by simp
  with n show ?thesis by (simp add: round_count_def round_small_nat)
qed

lemma round_count_Count:
  "round_count n = Count m \<longleftrightarrow>
     round_finite (of_nat n) = of_nat m \<and> (of_nat m :: rat) < 2 ^ 1024"
proof -
  from round_nat_is_nat[of n] obtain k where k: "round_finite (of_nat n) = of_nat k" by blast
  then show ?thesis by (auto simp: round_count_def Let_def)
qed

lemma round_count_idem: "round_count n = Count m \<Longrightarrow> round_count m = Count m"
proof -
  assume "round_count n = Count m"
  then have r: "round_finite (of_nat n) = of_nat m" and b: "(of_nat m :: rat) < 2 ^ 1024"
    by (simp_all add: round_count_Count)
  from r have "round_finite (of_nat m) = of_nat m"
    by (metis round_finite_idem)
  with b show ?thesis by (simp add: round_count_Count)
qed

lemma round_count_pos: "1 \<le> n \<Longrightarrow> round_count n = Count m \<Longrightarrow> 1 \<le> m"
proof -
  assume "1 \<le> n" and "round_count n = Count m"
  then have "round_finite (of_nat n) = of_nat m" and "(1 :: rat) \<le> of_nat n"
    by (simp_all add: round_count_Count)
  with round_ge_one(1)[of "of_nat n"] have "(1 :: rat) \<le> of_nat m" by simp
  then show ?thesis by simp
qed

lemma double_succ_eq: "of_nat (double_succ q) = round_finite (of_nat q + 1)"
proof -
  from round_nat_is_nat[of "Suc q"] obtain k where
    "round_finite (of_nat q + 1) = of_nat k" by (auto simp: add.commute)
  then show ?thesis by (simp add: double_succ_def)
qed

lemma double_succ_exact: "q < 2 ^ 53 \<Longrightarrow> double_succ q = q + 1"
proof -
  assume "q < 2 ^ 53"
  then have "Suc q \<le> 2 ^ 53" by simp
  then have "round_finite (of_nat (Suc q)) = of_nat (Suc q)" by (rule round_small_nat)
  then have "round_finite (of_nat q + 1) = of_nat (Suc q)" by (simp add: add.commute)
  then show ?thesis by (simp add: double_succ_def)
qed

lemma double_succ_pos: "1 \<le> double_succ q"
proof -
  have "1 \<le> round_finite (of_nat q + 1)" by (rule round_ge_one) simp
  then have "(1 :: rat) \<le> of_nat (double_succ q)" by (simp add: double_succ_eq)
  then show ?thesis by simp
qed

lemma double_succ_count:
  assumes "round_count q = Count q"
  shows "round_count (double_succ q) = Count (double_succ q)"
proof -
  from assms have r: "round_finite (of_nat q) = of_nat q" and b: "(of_nat q :: rat) < 2 ^ 1024"
    by (simp_all add: round_count_Count)
  from r have "representable (of_nat q :: rat)" by (metis representable_round)
  from round_succ_finite[OF this b] have "(of_nat (double_succ q) :: rat) < 2 ^ 1024"
    by (simp add: double_succ_eq)
  moreover have "round_finite (of_nat (double_succ q)) = of_nat (double_succ q)"
    by (simp add: double_succ_eq round_finite_idem)
  ultimately show ?thesis by (simp add: round_count_Count)
qed

lemmas str_eval = nat_to_string_def shortest_digits.simps digits_candidate_def rounds_to_def
  show_nat.simps digit_char_def fixed2_def

lemma count_plus_exact: "t + q \<le> 2 ^ 53 \<Longrightarrow> count_plus (Count t) q = Count (t + q)"
  by (simp add: round_count_exact)

lemma nat_to_string_small: "n \<le> 2 ^ 53 \<Longrightarrow> nat_to_string n = show_nat n"
  by (simp add: nat_to_string_def)

section \<open>Reading back what was written\<close>

lemma setSessionItem_iff: "(\<exists>w'. setSessionItem w k v = Inr w') = session_admits w k v"
  by (simp add: session_admits_def setSessionItem_def host_setItem_def)

lemma setSessionItem_Inr:
  assumes "setSessionItem w k v = Inr w'" and "k \<noteq> ''__proto__''"
  shows "getSessionItem w' k = Some v" and "useSession w' = useSession w"
  using assms
  by (auto simp: setSessionItem_def getSessionItem_def host_setItem_def host_getItem_def
      sessionSet_def sessionGet_def split: if_splits)

lemma cartItems_not_proto: "''cartItems'' \<noteq> ''__proto__''"
  by simp

lemma round_double_of_nat: "n \<le> 2 ^ 53 \<Longrightarrow> round_double (of_nat n) = Finite (of_nat n)"
proof -
  assume n: "n \<le> 2 ^ 53"
  then have "(of_nat n :: rat) \<le> 2 ^ 53"
    by (metis of_nat_le_iff of_nat_numeral of_nat_power)
  then have "(of_nat n :: rat) < 2 ^ 1024" "- (2 ^ 1024) < (of_nat n :: rat)"
    by (simp_all add: less_le_trans[of _ 0])
  with n show ?thesis by (simp add: round_double_def round_small_nat)
qed

lemma round_double_numeral:
  "numeral k \<le> (2 ^ 53 :: nat) \<Longrightarrow> round_double (numeral k) = Finite (numeral k)"
  using round_double_of_nat[of "numeral k"] by simp

lemma round_double_0: "round_double 0 = Finite 0"
  using round_double_of_nat[of 0] by simp

lemma round_double_1: "round_double 1 = Finite 1"
  using round_double_of_nat[of 1] by simp

lemmas small_eval = round_double_numeral round_double_0 round_double_1 round_count_exact
  double_succ_exact count_plus_exact nat_to_string_small

text \<open>Entries whose numbers are doubles are read as they are written.\<close>

lemma read_item_Some_iff:
  "read_item it = Some it \<longleftrightarrow>
     round_count (quantity it) = Count (quantity it) \<and>
     (price it = JNull \<or> (\<exists>v. price it = JNum v \<and> round_double v = Finite v))"
proof -
  have q: "it\<lparr>quantity := q\<rparr> = it \<longleftrightarrow> q = quantity it" for q
    by (metis item.select_convs(3) item.surjective item.update_convs(3))
  have p: "it\<lparr>price := JNum v, quantity := q\<rparr> = it \<longleftrightarrow> JNum v = price it \<and> q = quantity it"
    for v q
    by (metis item.select_convs(2,3) item.surjective item.update_convs(2,3))
  show ?thesis
    by (auto simp: read_item_def q p split: count.splits json_number.splits number.splits)
qed

lemma read_item_idem:
  assumes "read_item it = Some it'"
  shows "read_item it' = Some it'"
proof -
  from assms obtain q where q: "round_count (quantity it) = Count q" and q': "quantity it' = q"
    by (auto simp: read_item_def split: count.splits json_number.splits number.splits)
  from q have "round_count q = Count q" by (rule round_count_idem)
  moreover have "price it' = JNull \<or> (\<exists>v. price it' = JNum v \<and> round_double v = Finite v)"
    using assms
    by (auto simp: read_item_def round_double_idem
        split: count.splits json_number.splits number.splits)
  ultimately show ?thesis using q' by (simp add: read_item_Some_iff)
qed

lemma read_members_Inr:
  "read_members ms = Inr c \<Longrightarrow>
     map fst c = map fst ms \<and>
     (\<forall>q\<in>set c. read_item (snd q) = Some (snd q)) \<and>
     (\<forall>q\<in>set c. \<exists>p\<in>set ms. fst p = fst q \<and> read_item (snd p) = Some (snd q))"
proof (induction ms arbitrary: c)
  case Nil
  then show ?case by simp
next
  case (Cons m ms)
  from Cons.prems obtain it c' where it: "read_item (snd m) = Some it"
    and c': "read_members ms = Inr c'" and c: "c = (fst m, it) # c'"
    by (auto split: option.splits sum.splits)
  from Cons.IH[OF c'] it c read_item_idem[OF it] show ?case by auto
qed

lemma read_members_normal:
  "\<forall>p\<in>set ms. read_item (snd p) = Some (snd p) \<Longrightarrow> read_members ms = Inr ms"
  by (induction ms) auto

lemma getCart_of_stored:
  "getSessionItem w ''cartItems'' = Some (CartJSON ms) \<Longrightarrow>
     getCartFromSession w = read_members (json_parse_members ms)"
  by (simp add: getCartFromSession_def)

lemma getCart_cases:
  assumes "getCartFromSession w = Inr c"
  shows "distinct (map fst c)" and "\<forall>q\<in>set c. read_item (snd q) = Some (snd q)"
proof -
  have "distinct (map fst c) \<and> (\<forall>q\<in>set c. read_item (snd q) = Some (snd q))"
  proof (cases "getSessionItem w ''cartItems''")
    case None
    with assms show ?thesis by (simp add: getCartFromSession_def)
  next
    case (Some t)
    show ?thesis
    proof (cases t)
      case (Str s)
      with Some assms show ?thesis by (simp add: getCartFromSession_def split: if_splits)
    next
      case (CartJSON ms)
      with Some assms have "read_members (json_parse_members ms) = Inr c"
        by (simp add: getCartFromSession_def)
      from read_members_Inr[OF this] distinct_json_parse_members[of ms] show ?thesis
        by simp
    next
      case (CustomerJSON x)
      with Some assms show ?thesis by (simp add: getCartFromSession_def)
    qed
  qed
  then show "distinct (map fst c)" and "\<forall>q\<in>set c. read_item (snd q) = Some (snd q)"
    by simp_all
qed

lemma getCart_written:
  assumes "getSessionItem w ''cartItems'' = Some (CartJSON x)"
    and "\<forall>q\<in>set x. read_item (snd q) = Some (snd q)"
  shows "getCartFromSession w = Inr (json_parse_members x)"
proof -
  from assms(2) set_json_parse_members[of x]
  have "\<forall>q\<in>set (json_parse_members x). read_item (snd q) = Some (snd q)" by blast
  then have "read_members (json_parse_members x) = Inr (json_parse_members x)"
    by (rule read_members_normal)
  with getCart_of_stored[OF assms(1)] show ?thesis by simp
qed

lemma add_click_Inr:
  assumes "add_to_cart_click w i n p = Inr r"
  shows "\<exists>c. getCartFromSession w = Inr c \<and>
           getSessionItem (fst r) ''cartItems'' =
             Some (CartJSON (addItem c i n (parseFloat p))) \<and>
           snd r = [''Item added to cart!''] \<and> useSession (fst r) = useSession w"
proof -
  from assms obtain c where c: "getCartFromSession w = Inr c"
    by (auto simp: add_to_cart_click_def split: sum.splits)
  with assms obtain w' where
    w': "setSessionItem w ''cartItems'' (CartJSON (addItem c i n (parseFloat p))) = Inr w'"
    and r: "r = (w', [''Item added to cart!''])"
    by (auto simp: add_to_cart_click_def saveCartToSession_def split: sum.splits)
  from setSessionItem_Inr[OF w' cartItems_not_proto] c r show ?thesis by simp
qed

lemma add_click_iff:
  assumes "getCartFromSession w = Inr c"
  shows "(\<exists>w'. add_to_cart_click w i n p = Inr (w', [''Item added to cart!''])) =
           session_admits w ''cartItems'' (CartJSON (addItem c i n (parseFloat p)))"
  using setSessionItem_iff[of w "''cartItems''" "CartJSON (addItem c i n (parseFloat p))"]
    assms
  by (auto simp: add_to_cart_click_def saveCartToSession_def split: sum.splits)

section \<open>Repeated adds of one id\<close>

lemma addItem_absent:
  "map_of c i = None \<Longrightarrow> i \<notin> set object_prototype_keys \<Longrightarrow>
     addItem c i n p = define_property c i \<lparr>name = n, price = json_of_number p, quantity = 1\<rparr>"
  by (simp add: addItem_def)

lemma addItem_present:
  "map_of c i = Some it \<Longrightarrow>
     addItem c i n p = update_own c i (it\<lparr>quantity := double_succ (quantity it)\<rparr>)"
  by (simp add: addItem_def)

lemma addItem_inherited:
  "map_of c i = None \<Longrightarrow> i \<in> set object_prototype_keys \<Longrightarrow> addItem c i n p = c"
  by (simp add: addItem_def)

lemma define_property_Nil: "define_property [] k v = [(k, v)]"
  by (simp add: define_property_def split: option.splits)

lemma new_entry_normal:
  "read_item \<lparr>name = n, price = json_of_number (parseFloat p), quantity = 1\<rparr> =
     Some \<lparr>name = n, price = json_of_number (parseFloat p), quantity = 1\<rparr>"
proof -
  have "round_count 1 = Count 1" by (simp add: round_count_exact)
  moreover have "json_of_number (parseFloat p) = JNull \<or>
      (\<exists>v. json_of_number (parseFloat p) = JNum v \<and> round_double v = Finite v)"
  proof (cases p)
    case (Finite r)
    then show ?thesis by (cases "round_double r") (auto dest: round_double_idem)
  qed simp_all
  ultimately show ?thesis by (simp add: read_item_Some_iff)
qed

lemma incremented_entry_normal:
  assumes "read_item it = Some it"
  shows "read_item (it\<lparr>quantity := double_succ (quantity it)\<rparr>) =
           Some (it\<lparr>quantity := double_succ (quantity it)\<rparr>)"
  using assms by (simp add: read_item_Some_iff double_succ_count)

lemma set_addItem:
  "set (addItem c i n p) \<subseteq>
     set c \<union> {(i, \<lparr>name = n, price = json_of_number p, quantity = 1\<rparr>)} \<union>
     {(i, it\<lparr>quantity := double_succ (quantity it)\<rparr>) | it. map_of c i = Some it}"
proof (cases "map_of c i")
  case None
  then show ?thesis by (auto simp: addItem_def set_define_property)
next
  case (Some it)
  with set_update_own[of c i "it\<lparr>quantity := double_succ (quantity it)\<rparr>"] show ?thesis
    by (auto simp: addItem_def)
qed

lemma addItem_normal:
  assumes "distinct (map fst c)" and "\<forall>q\<in>set c. read_item (snd q) = Some (snd q)"
  shows "\<forall>q\<in>set (addItem c i n (parseFloat p)). read_item (snd q) = Some (snd q)"
proof
  fix q
  assume "q \<in> set (addItem c i n (parseFloat p))"
  with set_addItem[of c i n "parseFloat p"]
  consider "q \<in> set c"
    | "q = (i, \<lparr>name = n, price = json_of_number (parseFloat p), quantity = 1\<rparr>)"
    | it where "map_of c i = Some it" "q = (i, it\<lparr>quantity := double_succ (quantity it)\<rparr>)"
    by blast
  then show "read_item (snd q) = Some (snd q)"
  proof cases
    case 1
    with assms(2) show ?thesis by blast
  next
    case 2
    with new_entry_normal[of n p] show ?thesis by simp
  next
    case 3
    from 3(1) have "(i, it) \<in> set c" by (rule map_of_SomeD)
    with assms(2) have "read_item it = Some it" by force
    with 3(2) show ?thesis by (simp add: incremented_entry_normal)
  qed
qed

lemma add_clicks_single_entry:
  assumes "getSessionItem w ''cartItems'' = Some (CartJSON [(i, it)])"
    and "read_item it = Some it"
    and "add_clicks w i as = Inr w'"
    and "quantity it + length as \<le> 2 ^ 53"
  shows "getSessionItem w' ''cartItems'' =
           Some (CartJSON [(i, it\<lparr>quantity := quantity it + length as\<rparr>)])"
  using assms
proof (induction as arbitrary: w it)
  case Nil
  then show ?case by simp
next
  case (Cons a as)
  have c: "getCartFromSession w = Inr [(i, it)]"
    using getCart_written[OF Cons.prems(1)] Cons.prems(2)
    by (simp add: json_parse_members_single)
  from Cons.prems(3) obtain r where r: "add_to_cart_click w i (fst a) (snd a) = Inr r"
    and rest: "add_clicks (fst r) i as = Inr w'"
    by (auto split: sum.splits)
  from Cons.prems(4) have lt: "quantity it < 2 ^ 53" by simp
  let ?it = "it\<lparr>quantity := quantity it + 1\<rparr>"
  from add_click_Inr[OF r] c lt
  have s: "getSessionItem (fst r) ''cartItems'' = Some (CartJSON [(i, ?it)])"
    by (simp add: addItem_present double_succ_exact)
  have n: "read_item ?it = Some ?it"
    using incremented_entry_normal[OF Cons.prems(2)] lt by (simp add: double_succ_exact)
  from Cons.prems(4) have b: "quantity ?it + length as \<le> 2 ^ 53" by simp
  from Cons.IH[OF s n rest b] show ?case by simp
qed

text \<open>
  Clicks that share an id which is not inherited from \<open>Object.prototype\<close>: starting from
  a cart that reads as empty, as long as every click completes and there are at most
  \<open>2^53\<close> of them, the cart read afterwards has the one entry of that id, with the name
  and the price of the first click and the number of clicks as its quantity. A click
  completes exactly when the session scope takes its write.
\<close>

lemma add_same_id_counts_calls:
  assumes "getCartFromSession w = Inr []" and "itemId \<notin> set object_prototype_keys"
    and "args \<noteq> []" and "length args \<le> 2 ^ 53"
    and "add_clicks w itemId args = Inr w'"
  shows "getCartFromSession w' =
           Inr [(itemId, \<lparr>name = fst (hd args),
                          price = json_of_number (parseFloat (snd (hd args))),
                          quantity = length args\<rparr>)]"
proof -
  from assms(3) obtain a as where args: "args = a # as" by (cases args) auto
  from assms(5) args obtain r where r: "add_to_cart_click w itemId (fst a) (snd a) = Inr r"
    and rest: "add_clicks (fst r) itemId as = Inr w'"
    by (auto split: sum.splits)
  let ?it = "\<lparr>name = fst a, price = json_of_number (parseFloat (snd a)), quantity = 1\<rparr>"
  from add_click_Inr[OF r] assms(1,2)
  have s: "getSessionItem (fst r) ''cartItems'' = Some (CartJSON [(itemId, ?it)])"
    by (simp add: addItem_absent define_property_Nil)
  have n: "read_item ?it = Some ?it" by (rule new_entry_normal)
  from assms(4) args have b: "quantity ?it + length as \<le> 2 ^ 53" by simp
  let ?it' = "?it\<lparr>quantity := quantity ?it + length as\<rparr>"
  from add_clicks_single_entry[OF s n rest b]
  have g: "getSessionItem w' ''cartItems'' = Some (CartJSON [(itemId, ?it')])" .
  have "round_count (Suc (length as)) = Count (Suc (length as))"
    using assms(4) args by (simp add: round_count_exact)
  then have "read_item ?it' = Some ?it'"
    using n by (simp add: read_item_Some_iff)
  with getCart_written[OF g] show ?thesis
    by (simp add: args json_parse_members_single)
qed

lemmas eval_defs = fallback_world_def startup_def isStorageAvailable_def blocked_host_def
  open_host_def cart_after_def add_to_cart_click_def getCartFromSession_def
  saveCartToSession_def addItem_def object_prototype_keys_def define_property_def
  array_index_def is_digit_def numeral_value_def digit_value_def
  json_parse_members_def put_member_def read_item_def small_eval
  adapter_defs fallback_defs host_defs

text \<open>
  C2. The add-to-cart handler fails for an id that names a property of
  \<open>Object.prototype\<close>: on the page whose cart is empty, a click on a button with
  \<open>data-id="constructor"\<close> reports that the item was added, and after two such clicks the
  cart read from the session store has no entry, where one entry of quantity 2 is
  specified. The test \<open>if (cartItems[itemId])\<close> finds the inherited property and takes the
  branch of an entry that is present.
\<close>

theorem add_inherited_id_not_added:
  "''constructor'' \<in> set object_prototype_keys \<and>
   map_sum id snd (add_to_cart_click fallback_world ''constructor'' ''Mug'' (Finite 8)) =
     Inr [''Item added to cart!''] \<and>
   cart_after (add_clicks fallback_world ''constructor''
                 [(''Mug'', Finite 8), (''Mug'', Finite 8)]) = Inr []"
  by (simp add: eval_defs)

lemma add_same_id_three_clicks:
  "cart_after (add_clicks fallback_world ''mug''
                 [(''Mug'', Finite 8), (''Mug'', Finite 8), (''Mug'', Finite 8)]) =
     Inr [(''mug'', \<lparr>name = ''Mug'', price = JNum 8, quantity = 3\<rparr>)]"
  by (simp add: eval_defs)

section \<open>Clearing and ordering\<close>

lemma removeSessionItem_get: "getSessionItem (removeSessionItem w k) k = None"
  by (simp add: removeSessionItem_def getSessionItem_def host_removeItem_def host_getItem_def
      sessionRemove_def sessionGet_def)

lemma getCart_removed: "getCartFromSession (removeSessionItem w ''cartItems'') = Inr []"
  by (simp add: getCartFromSession_def removeSessionItem_get)

lemma getCart_cleared: "getCartFromSession (clearCartFromSession w) = Inr []"
  by (simp add: clearCartFromSession_def getCart_removed)

lemma totalItems_fold:
  assumes "distinct (map fst c)" and "set qs \<subseteq> set c"
  shows "totalItems c (map fst qs) n = foldl count_plus n (map (quantity \<circ> snd) qs)"
  using assms(2)
proof (induction qs arbitrary: n)
  case Nil
  show ?case by simp
next
  case (Cons q qs)
  then have "(fst q, snd q) \<in> set c" by simp
  with assms(1) have "map_of c (fst q) = Some (snd q)" by (rule map_of_is_SomeI)
  with Cons show ?case by simp
qed

lemma foldl_count_plus_exact:
  "n + sum_list qs \<le> 2 ^ 53 \<Longrightarrow> foldl count_plus (Count n) qs = Count (n + sum_list qs)"
proof (induction qs arbitrary: n)
  case Nil
  show ?case by simp
next
  case (Cons q qs)
  from Cons.prems have a: "n + q \<le> 2 ^ 53" and b: "(n + q) + sum_list qs \<le> 2 ^ 53"
    by simp_all
  from a have "count_plus (Count n) q = Count (n + q)" by (rule count_plus_exact)
  with Cons.IH[OF b] show ?case by (simp add: add.assoc)
qed

text \<open>
  C4 (corrected form). In a state whose cart reads as \<open>c\<close>: when \<open>c\<close> has entries, the
  process-order click reports the count that \<open>totalItems += item.quantity\<close> accumulates
  in doubles over the entries in enumeration order, and leaves the state that the
  clear-cart click leaves, in which the key \<open>cartItems\<close> is gone and the cart reads as
  empty; the count reported is the sum of the quantities, with all its digits, whenever
  that sum is at most \<open>2^53\<close>. When \<open>c\<close> has no entry, the click reports that there is
  nothing to order and leaves the state as it is.
\<close>

theorem process_order_counts_and_clears:
  assumes "getCartFromSession w = Inr c"
  shows "(c \<noteq> [] \<longrightarrow>
            process_order_click w =
              Inr (clearCartFromSession w,
                   [''Order processed successfully! ''
                      @ count_to_string (foldl count_plus (Count 0) (map (quantity \<circ> snd) c))
                      @ '' item(s) ordered.'']) \<and>
            (sum_list (map (quantity \<circ> snd) c) \<le> 2 ^ 53 \<longrightarrow>
               count_to_string (foldl count_plus (Count 0) (map (quantity \<circ> snd) c)) =
                 show_nat (sum_list (map (quantity \<circ> snd) c))) \<and>
            clear_cart_click w = Inr (clearCartFromSession w, [''Cart has been cleared!'']) \<and>
            getSessionItem (clearCartFromSession w) ''cartItems'' = None \<and>
            getCartFromSession (clearCartFromSession w) = Inr []) \<and>
         (c = [] \<longrightarrow> process_order_click w = Inr (w, [''No items in cart'']))"
proof -
  from assms have "distinct (map fst c)" by (rule getCart_cases)
  then have t: "totalItems c (map fst c) (Count 0) =
      foldl count_plus (Count 0) (map (quantity \<circ> snd) c)"
    using totalItems_fold[of c c "Count 0"] by simp
  have "count_to_string (foldl count_plus (Count 0) (map (quantity \<circ> snd) c)) =
          show_nat (sum_list (map (quantity \<circ> snd) c))"
    if "sum_list (map (quantity \<circ> snd) c) \<le> 2 ^ 53"
    using that foldl_count_plus_exact[of 0 "map (quantity \<circ> snd) c"]
    by (simp add: nat_to_string_small)
  with assms t show ?thesis
    by (simp add: process_order_click_def clear_cart_click_def getCart_removed
        clearCartFromSession_def removeSessionItem_get)
qed

theorem process_order_counts_and_clears_witness:
  "getCartFromSession world_AB = Inr cart_AB \<and> cart_AB \<noteq> [] \<and>
   sum_list (map (quantity \<circ> snd) cart_AB) \<le> 2 ^ 53 \<and>
   process_order_click world_AB =
     Inr (clearCartFromSession world_AB,
          [''Order processed successfully! 3 item(s) ordered.'']) \<and>
   getCartFromSession (clearCartFromSession world_AB) = Inr []"
  using process_order_counts_and_clears[of world_AB cart_AB]
  by (simp add: eval_defs world_AB_def cart_AB_def clearCartFromSession_def
      show_nat.simps digit_char_def)

text \<open>
  C4 as stated fails where the sum of the quantities is no double: on the cart
  \<open>{A: {price: 10, quantity: 9007199254740992}, B: {price: 5, quantity: 1}}\<close> the sum is
  \<open>9007199254740993\<close> and the click reports \<open>9007199254740992\<close>.
\<close>

theorem process_order_count_counterexample:
  "getCartFromSession world_big = Inr cart_big \<and>
   show_nat (sum_list (map (quantity \<circ> snd) cart_big)) = ''9007199254740993'' \<and>
   process_order_click world_big =
     Inr (clearCartFromSession world_big,
          [''Order processed successfully! 9007199254740992 item(s) ordered.''])"
  by (simp add: eval_defs world_big_def cart_big_def process_order_click_def
      clearCartFromSession_def round_count_def dbl_eval show_nat.simps digit_char_def)

text \<open>
  C5. In a state whose cart reads as \<open>c\<close>: when \<open>c\<close> has no entry, the clear-cart click
  reports that there is nothing to clear and leaves the whole state, stores included, as
  it is; when \<open>c\<close> has entries, it removes the key \<open>cartItems\<close> from the session scope, so
  that reading the key gives \<open>null\<close>, and the view-cart click that follows reports an
  empty cart.
\<close>

theorem clear_cart_removes_key:
  assumes "getCartFromSession w = Inr c"
  shows "(c = [] \<longrightarrow> clear_cart_click w = Inr (w, [''No items to clear''])) \<and>
         (c \<noteq> [] \<longrightarrow>
            clear_cart_click w =
              Inr (removeSessionItem w ''cartItems'', [''Cart has been cleared!'']) \<and>
            getSessionItem (removeSessionItem w ''cartItems'') ''cartItems'' = None \<and>
            (\<forall>ops. view_cart_click ops (removeSessionItem w ''cartItems'') =
                     Inr (removeSessionItem w ''cartItems'', [''Your cart is empty''])))"
  using assms
  by (simp add: clear_cart_click_def view_cart_click_def clearCartFromSession_def
      removeSessionItem_get getCart_removed)

theorem clear_cart_removes_key_witness:
  "getCartFromSession world_AB = Inr cart_AB \<and> cart_AB \<noteq> [] \<and>
   clear_cart_click world_AB =
     Inr (removeSessionItem world_AB ''cartItems'', [''Cart has been cleared!'']) \<and>
   getSessionItem (removeSessionItem world_AB ''cartItems'') ''cartItems'' = None \<and>
   (\<forall>ops :: unit double_ops.
      view_cart_click ops (removeSessionItem world_AB ''cartItems'') =
        Inr (removeSessionItem world_AB ''cartItems'', [''Your cart is empty''])) \<and>
   getCartFromSession fallback_world = Inr [] \<and>
   clear_cart_click fallback_world = Inr (fallback_world, [''No items to clear''])"
  using clear_cart_removes_key[of world_AB cart_AB] clear_cart_removes_key[of fallback_world "[]"]
  by (simp add: eval_defs world_AB_def cart_AB_def clear_cart_click_def view_cart_click_def
      clearCartFromSession_def)

section \<open>Quantities stay positive\<close>

lemma cart_step_positive:
  assumes "quantities_positive w" and "cart_step w op = Inr r"
  shows "quantities_positive (fst r)"
proof (cases op)
  case (AddItem i n p)
  with assms(2) have a: "add_to_cart_click w i n p = Inr r" by simp
  from add_click_Inr[OF a] obtain c where c: "getCartFromSession w = Inr c"
    and s: "getSessionItem (fst r) ''cartItems'' =
              Some (CartJSON (addItem c i n (parseFloat p)))" by blast
  from assms(1) c have pos: "\<forall>q\<in>set c. 1 \<le> quantity (snd q)"
    by (simp add: quantities_positive_def list_all_iff)
  from getCart_cases[OF c] addItem_normal[of c i n p]
  have "\<forall>q\<in>set (addItem c i n (parseFloat p)). read_item (snd q) = Some (snd q)" by blast
  from getCart_written[OF s this]
  have g: "getCartFromSession (fst r) = Inr (json_parse_members (addItem c i n (parseFloat p)))" .
  have "1 \<le> quantity (snd q)"
    if "q \<in> set (json_parse_members (addItem c i n (parseFloat p)))" for q
  proof -
    from that set_json_parse_members have "q \<in> set (addItem c i n (parseFloat p))" by blast
    with set_addItem[of c i n "parseFloat p"] pos double_succ_pos show ?thesis by auto
  qed
  with g show ?thesis
    by (simp add: quantities_positive_def list_all_iff)
next
  case ClearCart
  with assms show ?thesis
    by (auto simp: clear_cart_click_def quantities_positive_def getCart_cleared
        split: sum.splits if_splits)
next
  case ProcessOrder
  with assms show ?thesis
    by (auto simp: process_order_click_def quantities_positive_def getCart_cleared
        split: sum.splits if_splits)
qed

lemma run_cart_ops_positive:
  "quantities_positive w \<Longrightarrow> quantities_positive (run_cart_ops w ops)"
proof (induction ops arbitrary: w)
  case Nil
  then show ?case by simp
next
  case (Cons op ops)
  show ?case
  proof (cases "cart_step w op")
    case (Inl e)
    with Cons show ?thesis by simp
  next
    case (Inr r)
    from Cons.IH[OF cart_step_positive[OF Cons.prems Inr]] Inr show ?thesis by simp
  qed
qed

text \<open>
  C9. Start in a state whose cart reads as empty and let any sequence of add-to-cart,
  clear-cart and process-order clicks run, with any ids, names and prices. The state
  reached has a readable cart, every entry of it has a quantity of at least 1, and no
  entry has quantity 0.
\<close>

theorem reachable_quantities_positive:
  assumes "getCartFromSession w = Inr []"
  shows "\<exists>c. getCartFromSession (run_cart_ops w ops) = Inr c \<and>
             (\<forall>p\<in>set c. 1 \<le> quantity (snd p)) \<and> (\<forall>p\<in>set c. quantity (snd p) \<noteq> 0)"
proof -
  from assms have "quantities_positive w" by (simp add: quantities_positive_def)
  then have "quantities_positive (run_cart_ops w ops)" by (rule run_cart_ops_positive)
  then show ?thesis
    by (cases "getCartFromSession (run_cart_ops w ops)")
       (auto simp: quantities_positive_def list_all_iff)
qed

theorem reachable_quantities_positive_witness:
  "getCartFromSession fallback_world = Inr [] \<and>
   getCartFromSession
     (run_cart_ops fallback_world
        [AddItem ''mug'' ''Mug'' (Finite 8), AddItem ''mug'' ''Mug'' (Finite 8), ProcessOrder,
         AddItem ''7'' ''Tea'' NaN, ClearCart, AddItem ''mug'' ''Mug'' (Finite 8),
         AddItem ''7'' ''Tea'' NaN, AddItem ''7'' ''Tea'' NaN]) =
     Inr [(''7'', \<lparr>name = ''Tea'', price = JNull, quantity = 2\<rparr>),
          (''mug'', \<lparr>name = ''Mug'', price = JNum 8, quantity = 1\<rparr>)]"
  using reachable_quantities_positive[of fallback_world
     "[AddItem ''mug'' ''Mug'' (Finite 8), AddItem ''mug'' ''Mug'' (Finite 8), ProcessOrder,
         AddItem ''7'' ''Tea'' NaN, ClearCart, AddItem ''mug'' ''Mug'' (Finite 8),
         AddItem ''7'' ''Tea'' NaN, AddItem ''7'' ''Tea'' NaN]"]
  by (simp add: eval_defs process_order_click_def clear_cart_click_def clearCartFromSession_def)

section \<open>The cart view\<close>










section \<open>A repeated add keeps name and price\<close>

text \<open>
  C10. In a state whose cart reads as \<open>c\<close> and has an entry \<open>it\<close> under an id, an
  add-to-cart click with that id and any name and price arguments completes exactly when
  the session scope takes the write of the updated cart, and when it completes the cart
  read back has under that id an entry with the name and price of \<open>it\<close>; its quantity is
  what \<open>quantity += 1\<close> gives in doubles, which is the quantity of \<open>it\<close> plus 1 below
  \<open>2^53\<close>; every other id has the entry it had, or none as before.
\<close>

theorem repeat_add_keeps_name_and_price:
  assumes "getCartFromSession w = Inr c" and "map_of c itemId = Some it"
  shows "((\<exists>w'. add_to_cart_click w itemId itemName itemPrice =
                  Inr (w', [''Item added to cart!''])) =
            session_admits w ''cartItems''
              (CartJSON (addItem c itemId itemName (parseFloat itemPrice)))) \<and>
         (\<forall>r. add_to_cart_click w itemId itemName itemPrice = Inr r \<longrightarrow>
            (\<exists>c' it'. getCartFromSession (fst r) = Inr c' \<and>
               map_of c' itemId = Some it' \<and>
               name it' = name it \<and> price it' = price it \<and>
               quantity it' = double_succ (quantity it) \<and>
               (quantity it < 2 ^ 53 \<longrightarrow> quantity it' = quantity it + 1) \<and>
               (\<forall>k. k \<noteq> itemId \<longrightarrow> map_of c' k = map_of c k)))"
proof -
  let ?it = "it\<lparr>quantity := double_succ (quantity it)\<rparr>"
  let ?c = "update_own c itemId ?it"
  from assms(1) have d: "distinct (map fst c)" by (rule getCart_cases)
  from assms(2) have k: "itemId \<in> fst ` set c"
    by (metis map_of_eq_None_iff option.distinct(1))
  from assms(2) have a: "addItem c itemId itemName (parseFloat itemPrice) = ?c"
    by (rule addItem_present)
  have m: "map_of (json_parse_members ?c) = (map_of c)(itemId \<mapsto> ?it)"
    using d k
    by (simp add: map_of_json_parse_members map_of_rev_distinct keys_update_own
        map_of_update_own)
  from getCart_cases[OF assms(1)] addItem_normal[of c itemId itemName itemPrice] a
  have n: "\<forall>q\<in>set ?c. read_item (snd q) = Some (snd q)" by simp
  have frame: "\<exists>c' it'. getCartFromSession (fst r) = Inr c' \<and>
               map_of c' itemId = Some it' \<and>
               name it' = name it \<and> price it' = price it \<and>
               quantity it' = double_succ (quantity it) \<and>
               (quantity it < 2 ^ 53 \<longrightarrow> quantity it' = quantity it + 1) \<and>
               (\<forall>k. k \<noteq> itemId \<longrightarrow> map_of c' k = map_of c k)"
    if r: "add_to_cart_click w itemId itemName itemPrice = Inr r" for r
  proof -
    from add_click_Inr[OF r] assms(1) a
    have "getSessionItem (fst r) ''cartItems'' = Some (CartJSON ?c)" by simp
    from getCart_written[OF this n]
    have "getCartFromSession (fst r) = Inr (json_parse_members ?c)" .
    with m show ?thesis by (simp add: double_succ_exact)
  qed
  from add_click_iff[OF assms(1), of itemId itemName itemPrice] frame show ?thesis by blast
qed

theorem repeat_add_keeps_name_and_price_witness:
  "getCartFromSession world_AB = Inr cart_AB \<and>
   map_of cart_AB ''A'' = Some \<lparr>name = ''A'', price = JNum 10, quantity = 2\<rparr> \<and>
   session_admits world_AB ''cartItems''
     (CartJSON (addItem cart_AB ''A'' ''Another name'' (parseFloat (Finite 99)))) \<and>
   cart_after (map_sum id fst (add_to_cart_click world_AB ''A'' ''Another name'' (Finite 99))) =
     Inr [(''A'', \<lparr>name = ''A'', price = JNum 10, quantity = 3\<rparr>),
          (''B'', \<lparr>name = ''B'', price = JNum 5, quantity = 1\<rparr>)] \<and>
   getCartFromSession world_big = Inr cart_big \<and>
   map_of cart_big ''A'' = Some \<lparr>name = ''A'', price = JNum 10, quantity = 9007199254740992\<rparr> \<and>
   cart_after (map_sum id fst (add_to_cart_click world_big ''A'' ''Another name'' (Finite 99))) =
     Inr cart_big"
  using repeat_add_keeps_name_and_price[of world_AB cart_AB "''A''"
      "\<lparr>name = ''A'', price = JNum 10, quantity = 2\<rparr>" "''Another name''" "Finite 99"]
    repeat_add_keeps_name_and_price[of world_big cart_big "''A''"
      "\<lparr>name = ''A'', price = JNum 10, quantity = 9007199254740992\<rparr>" "''Another name''"
      "Finite 99"]
  by (simp add: eval_defs world_AB_def cart_AB_def world_big_def cart_big_def
      session_admits_def double_succ_def dbl_eval)

section \<open>Email addresses\<close>

lemma split_on_without: "c \<notin> set s \<Longrightarrow> split_on c s = [s]"
  by (induction s) auto

lemma split_on_with:
  "c \<in> set s \<Longrightarrow>
     split_on c s = takeWhile (\<lambda>x. x \<noteq> c) s # split_on c (tl (dropWhile (\<lambda>x. x \<noteq> c) s))"
  by (induction s) auto

lemma split_on_not_Nil: "split_on c s \<noteq> []"
  by (induction s) (auto split: list.splits)

lemma length_split_on: "length (split_on c s) = Suc (count_list s c)"
  by (induction s) (auto split: list.splits simp: split_on_not_Nil)

lemma count_list_with:
  "c \<in> set s \<Longrightarrow> count_list s c = Suc (count_list (tl (dropWhile (\<lambda>x. x \<noteq> c) s)) c)"
  by (induction s) auto

lemma shape_check_iff:
  assumes "CHR ''@'' \<in> set s"
  shows "(length (split_on (CHR ''@'') s) \<noteq> 2 \<or> split_on (CHR ''@'') s ! 0 = [] \<or>
          split_on (CHR ''@'') s ! 1 = []) = (\<not> one_at_between_text s)"
proof -
  let ?r = "tl (dropWhile (\<lambda>x. x \<noteq> CHR ''@'') s)"
  show ?thesis
  proof (cases "CHR ''@'' \<in> set ?r")
    case True
    then have "count_list ?r (CHR ''@'') \<noteq> 0" by (simp add: count_list_0_iff)
    with assms show ?thesis
      by (simp add: length_split_on count_list_with one_at_between_text_def)
  next
    case False
    then have "count_list ?r (CHR ''@'') = 0" by (simp add: count_list_0_iff)
    with assms False show ?thesis
      by (simp add: split_on_with[OF assms] split_on_without count_list_with
          one_at_between_text_def)
  qed
qed

lemma no_at_not_shaped: "CHR ''@'' \<notin> set s \<Longrightarrow> \<not> one_at_between_text s"
  by (simp add: one_at_between_text_def count_list_0_iff[THEN iffD2])

lemma newsletter_email_alert_iff: "(newsletter_email_alert e = None) = one_at_between_text e"
proof (cases "CHR ''@'' \<in> set e")
  case True
  then have "e \<noteq> []" by auto
  with True shape_check_iff[OF True] show ?thesis
    by (simp add: newsletter_email_alert_def Let_def)
next
  case False
  with no_at_not_shaped[OF False] show ?thesis
    by (simp add: newsletter_email_alert_def)
qed

lemma feedback_email_alert_iff: "(feedback_email_alert e = None) = one_at_between_text e"
proof (cases "CHR ''@'' \<in> set e")
  case True
  then have "e \<noteq> []" by auto
  with True shape_check_iff[OF True] show ?thesis
    by (simp add: feedback_email_alert_def Let_def)
next
  case False
  with no_at_not_shaped[OF False] show ?thesis
    by (simp add: feedback_email_alert_def)
qed

lemma newsletter_email_alert_Some:
  "newsletter_email_alert e = Some m \<Longrightarrow> \<exists>r. m = CHR ''P'' # r"
  by (auto simp: newsletter_email_alert_def Let_def split: if_splits)

lemma newsletter_accepts_iff: "newsletter_accepts v = one_at_between_text (trim v)"
proof (cases "newsletter_email_alert (trim v)")
  case None
  with newsletter_email_alert_iff[of "trim v"] show ?thesis
    by (simp add: newsletter_accepts_def newsletter_submit_def)
next
  case (Some m)
  from newsletter_email_alert_Some[OF Some] obtain r where "m = CHR ''P'' # r" by blast
  with Some newsletter_email_alert_iff[of "trim v"] show ?thesis
    by (simp add: newsletter_accepts_def newsletter_submit_def)
qed

lemmas trim_defs = trim_def is_space_def

text \<open>
  C6. The email checks of the newsletter form (applied by the handler to the trimmed field
  value) let a string pass exactly when it has exactly one \<open>@\<close> with text before and after
  it, and the email checks of the feedback form let exactly the same strings pass.
  \<open>foo\<close>, \<open>foo@\<close> and \<open>@bar\<close> are rejected and \<open>a@b\<close> is accepted, by either form; the
  newsletter handler as a whole subscribes exactly the field values whose trimmed text
  passes.
\<close>

theorem email_validation_one_at:
  "(newsletter_email_alert e = None) = one_at_between_text e \<and>
   (feedback_email_alert e = None) = one_at_between_text e \<and>
   newsletter_accepts v = one_at_between_text (trim v) \<and>
   newsletter_email_alert ''foo'' \<noteq> None \<and> newsletter_email_alert ''foo@'' \<noteq> None \<and>
   newsletter_email_alert ''@bar'' \<noteq> None \<and> newsletter_email_alert ''a@b'' = None \<and>
   feedback_email_alert ''foo'' \<noteq> None \<and> feedback_email_alert ''foo@'' \<noteq> None \<and>
   feedback_email_alert ''@bar'' \<noteq> None \<and> feedback_email_alert ''a@b'' = None"
proof -
  have n: "newsletter_email_alert ''foo'' \<noteq> None" "newsletter_email_alert ''foo@'' \<noteq> None"
    "newsletter_email_alert ''@bar'' \<noteq> None" "newsletter_email_alert ''a@b'' = None"
    by (simp_all add: newsletter_email_alert_def)
  have f: "feedback_email_alert ''foo'' \<noteq> None" "feedback_email_alert ''foo@'' \<noteq> None"
    "feedback_email_alert ''@bar'' \<noteq> None" "feedback_email_alert ''a@b'' = None"
    by (simp_all add: feedback_email_alert_def)
  from n f show ?thesis
    using newsletter_email_alert_iff[of e] feedback_email_alert_iff[of e]
      newsletter_accepts_iff[of v]
    by blast
qed

theorem email_validation_one_at_witness:
  "one_at_between_text ''ann@example.org'' \<and> newsletter_email_alert ''ann@example.org'' = None \<and>
   feedback_email_alert ''ann@example.org'' = None \<and>
   newsletter_accepts '' a@b '' \<and> one_at_between_text (trim '' a@b '')"
  using email_validation_one_at[of "''ann@example.org''" "'' a@b ''"]
  by (simp add: one_at_between_text_def trim_defs)

section \<open>Rejected and accepted feedback\<close>

lemma first_failing_cases:
  "first_failing f =
     (if rule_fails NameRequired f then Some NameRequired
      else if rule_fails EmailRequired f then Some EmailRequired
      else if rule_fails EmailHasAt f then Some EmailHasAt
      else if rule_fails EmailShape f then Some EmailShape
      else if rule_fails MessageRequired f then Some MessageRequired
      else None)"
  by (simp add: first_failing_def feedback_rules_def)

lemma feedback_submit_rejected:
  "first_failing f = Some r \<Longrightarrow> feedback_submit w f now = Inr (w, [rule_message r], f)"
  unfolding first_failing_cases
  by (auto simp: feedback_submit_def feedback_email_alert_def Let_def split: if_splits)


text \<open>
  C7 (corrected form). The checks of the feedback handler run in the order name given,
  email given, email contains \<open>@\<close>, email has the required shape, message given; the
  check for the message comes after the two checks on the shape of the address. When some
  check fails, the handler raises exactly one message, that of the first failing check in
  this order, and returns with the state, the stored profile included, and the fields of
  the form as they were.
\<close>

theorem feedback_rejection_single_message:
  assumes "first_failing f = Some r"
  shows "feedback_submit w f now = Inr (w, [rule_message r], f) \<and>
         r \<in> set feedback_rules \<and> rule_fails r f \<and>
         (\<forall>q \<in> set (takeWhile (\<lambda>q. q \<noteq> r) feedback_rules). \<not> rule_fails q f) \<and>
         profile_after (feedback_submit w f now) = getLocalItem w ''customerData''"
proof -
  have s: "feedback_submit w f now = Inr (w, [rule_message r], f)"
    using assms by (rule feedback_submit_rejected)
  from assms have "r \<in> set feedback_rules" "rule_fails r f"
    by (auto simp: first_failing_def find_Some_iff in_set_conv_nth)
  moreover have "\<not> rule_fails q f"
    if "q \<in> set (takeWhile (\<lambda>q. q \<noteq> r) feedback_rules)" for q
    using that assms unfolding first_failing_cases
    by (auto simp: feedback_rules_def split: if_splits)
  ultimately show ?thesis using s by (simp add: profile_after_def)
qed

theorem feedback_rejection_single_message_witness:
  "first_failing form_no_at = Some EmailHasAt \<and>
   feedback_submit fallback_world form_no_at ''2026-01-01T00:00:00.000Z'' =
     Inr (fallback_world, [rule_message EmailHasAt], form_no_at)"
  using feedback_rejection_single_message[of form_no_at EmailHasAt fallback_world
      "''2026-01-01T00:00:00.000Z''"]
  by (simp add: first_failing_cases form_no_at_def trim_defs)

text \<open>
  C7 as stated fails: with a name, the address \<open>foo\<close> and no message, a presence check
  fails (the message is missing), yet the one message raised is that of a shape check.
\<close>

theorem shape_before_presence_counterexample:
  \<open>feedback_submit fallback_world form_no_at ''2026-01-01T00:00:00.000Z'' =
     Inr (fallback_world, [''Please include a "@" in the email address.''], form_no_at) \<and>
   rule_message EmailHasAt = ''Please include a "@" in the email address.'' \<and>
   \<not> is_presence_check EmailHasAt \<and>
   is_presence_check MessageRequired \<and> rule_fails MessageRequired form_no_at\<close>
  by (simp add: feedback_submit_def feedback_email_alert_def form_no_at_def trim_defs)

section \<open>Saving the profile\<close>










end
